theory Spec2Isabelle
  imports Complex_Main "HOL-Library.Sublist"
begin

section \<open>Data model of \<^verbatim>\<open>src/main.py\<close>\<close>

text \<open>
  The development follows \<^verbatim>\<open>src/main.py\<close>. Python integers are \<open>int\<close>, the values of
  \<^verbatim>\<open>time.time()\<close>, sleep durations and the gain factor are \<open>real\<close> (the model
  computes with the exact values the floating-point expressions denote), strings are lists
  of code points, \<^verbatim>\<open>None\<close>-able values are \<open>option\<close>. Calls to the outside world (the clock, the media resolver, the
  voice gateway, the recommendation providers) are parameters of the functions that make
  them, so every theorem holds for every behaviour of the outside world. Sending or editing
  a chat message is taken to succeed. Each function models one task of the cooperative
  event loop running on its own; interleavings with other tasks are not modelled.
\<close>

subsection \<open>Strings\<close>

text \<open>
  A Python \<^verbatim>\<open>str\<close> is a sequence of Unicode code points, and \<^verbatim>\<open>len\<close>, \<^verbatim>\<open>==\<close>,
  \<^verbatim>\<open>in\<close>, \<^verbatim>\<open>split\<close>, \<^verbatim>\<open>strip\<close>, \<^verbatim>\<open>join\<close> and \<^verbatim>\<open>lower\<close> work on that sequence. A
  code point is a natural number here; \<open>py_str\<close> reads a literal of the source.
\<close>

type_synonym pystr = "nat list"

definition py_str :: "string \<Rightarrow> pystr" where
  "py_str s = map of_char s"

text \<open>
  \<^verbatim>\<open>str.lower()\<close> consults the Unicode character database of the interpreter: the full
  lower-case mapping of a code point (one code point may become several, U+0130 becomes
  U+0069 U+0307) and the properties \<^verbatim>\<open>Cased\<close> and \<^verbatim>\<open>Case_Ignorable\<close>. The database
  depends on the Unicode version the interpreter was built with, so for the code points from
  128 on it is a parameter, and every theorem holds for every such database. Below 128 the
  entries are those of every version: the letters \<^verbatim>\<open>A\<close> to \<^verbatim>\<open>Z\<close> map to \<^verbatim>\<open>a\<close> to
  \<^verbatim>\<open>z\<close>, the cased code points are the 52 letters, and the case-ignorable ones are the
  apostrophe, the full stop, the colon, the circumflex and the grave accent.
\<close>

record ucd =
  lower_full :: "nat \<Rightarrow> nat list"
  cased :: "nat \<Rightarrow> bool"
  case_ignorable :: "nat \<Rightarrow> bool"

definition to_lower_full :: "ucd \<Rightarrow> nat \<Rightarrow> nat list" where
  "to_lower_full u c =
     (if c < 128 then [if 65 \<le> c \<and> c \<le> 90 then c + 32 else c] else lower_full u c)"

definition is_cased :: "ucd \<Rightarrow> nat \<Rightarrow> bool" where
  "is_cased u c =
     (if c < 128 then (65 \<le> c \<and> c \<le> 90) \<or> (97 \<le> c \<and> c \<le> 122) else cased u c)"

definition is_case_ignorable :: "ucd \<Rightarrow> nat \<Rightarrow> bool" where
  "is_case_ignorable u c =
     (if c < 128 then c = 39 \<or> c = 46 \<or> c = 58 \<or> c = 94 \<or> c = 96 else case_ignorable u c)"

text \<open>
  The one rule of \<^verbatim>\<open>lower()\<close> that looks at the neighbours of a code point
  (\<^verbatim>\<open>handle_capital_sigma\<close> in CPython): U+03A3, the capital sigma, becomes the final
  sigma U+03C2 when the nearest code point before it that is not case-ignorable exists and
  is cased, and the nearest one after it that is not case-ignorable does not exist or is not
  cased; otherwise it becomes U+03C3. \<open>seen\<close> holds the code points before the sigma, the
  nearest first, and \<open>rest\<close> those after it.
\<close>

definition handle_capital_sigma :: "ucd \<Rightarrow> nat list \<Rightarrow> nat list \<Rightarrow> nat" where
  "handle_capital_sigma u seen rest =
     (if (case dropWhile (is_case_ignorable u) seen of [] \<Rightarrow> False | c # cs \<Rightarrow> is_cased u c)
         \<and> (case dropWhile (is_case_ignorable u) rest of [] \<Rightarrow> True | c # cs \<Rightarrow> \<not> is_cased u c)
      then 962 else 963)"

definition lower_ucs4 :: "ucd \<Rightarrow> nat list \<Rightarrow> nat \<Rightarrow> nat list \<Rightarrow> nat list" where
  "lower_ucs4 u seen c rest =
     (if c = 931 then [handle_capital_sigma u seen rest] else to_lower_full u c)"

fun do_lower :: "ucd \<Rightarrow> nat list \<Rightarrow> pystr \<Rightarrow> pystr" where
  "do_lower u seen [] = []"
| "do_lower u seen (c # cs) = lower_ucs4 u seen c cs @ do_lower u (c # seen) cs"

definition str_lower :: "ucd \<Rightarrow> pystr \<Rightarrow> pystr" where
  "str_lower u s = do_lower u [] s"

text \<open>\<^verbatim>\<open>a in b\<close> on strings: \<open>a\<close> occurs in \<open>b\<close> as a contiguous piece.\<close>

definition str_in :: "pystr \<Rightarrow> pystr \<Rightarrow> bool" where
  "str_in a b \<longleftrightarrow> sublist a b"

text \<open>\<^verbatim>\<open>s.split(sep)\<close> for a separator of one code point, and \<^verbatim>\<open>sep.join(xs)\<close>.\<close>

fun str_split :: "nat \<Rightarrow> pystr \<Rightarrow> pystr list" where
  "str_split sep [] = [[]]"
| "str_split sep (c # cs) =
     (if c = sep then [] # str_split sep cs
      else (case str_split sep cs of
              [] \<Rightarrow> [[c]]
            | p # ps \<Rightarrow> (c # p) # ps))"

fun str_join :: "pystr \<Rightarrow> pystr list \<Rightarrow> pystr" where
  "str_join sep [] = []"
| "str_join sep [x] = x"
| "str_join sep (x # y # ys) = x @ sep @ str_join sep (y # ys)"

text \<open>
  \<^verbatim>\<open>s.strip()\<close> removes from both ends the code points for which \<^verbatim>\<open>str.isspace\<close> holds:
  the ASCII controls 9 to 13 and 28 to 31, the space, and beyond ASCII U+0085, U+00A0,
  U+1680, U+2000 to U+200A, U+2028, U+2029, U+202F, U+205F and U+3000.
\<close>

definition is_space :: "nat \<Rightarrow> bool" where
  "is_space c \<longleftrightarrow>
     (9 \<le> c \<and> c \<le> 13) \<or> (28 \<le> c \<and> c \<le> 32) \<or> c = 133 \<or> c = 160 \<or> c = 5760
     \<or> (8192 \<le> c \<and> c \<le> 8202) \<or> c = 8232 \<or> c = 8233 \<or> c = 8239 \<or> c = 8287 \<or> c = 12288"

definition str_strip :: "pystr \<Rightarrow> pystr" where
  "str_strip s = rev (dropWhile is_space (rev (dropWhile is_space s)))"

subsection \<open>Song\<close>

text \<open>
  \<^verbatim>\<open>EnhancedYTDLSource\<close> is a \<^verbatim>\<open>PCMVolumeTransformer\<close>; the only attribute of it that
  \<^verbatim>\<open>main.py\<close> reads or writes after construction is \<^verbatim>\<open>volume\<close>.
\<close>

record ytdl_source =
  volume :: real

text \<open>
  \<^verbatim>\<open>class Song\<close>. \<open>song_id\<close> is the identity of the Python object (what \<^verbatim>\<open>id(song)\<close>
  returns): two songs built from the same data are different objects. \<open>spotify_data\<close> is
  \<open>None\<close> or the dictionary, of which only the entry \<^verbatim>\<open>'spotify_url'\<close> is ever read back.
\<close>

record song =
  song_id :: nat
  title :: pystr
  artist :: pystr
  duration :: "int option"
  thumbnail :: "pystr option"
  youtube_url :: pystr
  spotify_data :: "pystr option"
  source :: "ytdl_source option"
  retry_count :: int
  max_retries :: int

text \<open>\<^verbatim>\<open>x or default\<close> on an optional string: \<^verbatim>\<open>None\<close> and \<^verbatim>\<open>''\<close> are falsy.\<close>

definition str_or :: "pystr option \<Rightarrow> pystr \<Rightarrow> pystr" where
  "str_or x d = (case x of None \<Rightarrow> d | Some s \<Rightarrow> (if s = [] then d else s))"

definition Song_init ::
  "nat \<Rightarrow> pystr option \<Rightarrow> pystr option \<Rightarrow> int option \<Rightarrow> pystr option \<Rightarrow> pystr
     \<Rightarrow> pystr option \<Rightarrow> song" where
  "Song_init ident ttl art dur thumb url spdata =
     \<lparr> song_id = ident,
       title = str_or ttl (py_str ''Unknown Title''),
       artist = str_or art (py_str ''Unknown Artist''),
       duration = dur,
       thumbnail = thumb,
       youtube_url = url,
       spotify_data = spdata,
       source = None,
       retry_count = 0,
       max_retries = 2 \<rparr>"

subsection \<open>EnhancedMusicQueue\<close>

text \<open>The voice client: whether it reports itself connected, and to which channel.\<close>

record voice_client_t =
  is_connected :: bool
  channel :: nat

text \<open>
  \<^verbatim>\<open>collections.deque(maxlen=n).append(x)\<close>: the new item goes to the right end and,
  when the deque is over its bound, items are dropped from the left end.
\<close>

definition deque_append :: "nat \<Rightarrow> 'a list \<Rightarrow> 'a \<Rightarrow> 'a list" where
  "deque_append maxlen xs x = drop (length (xs @ [x]) - maxlen) (xs @ [x])"

definition last_played_maxlen :: nat where
  "last_played_maxlen = 5"

definition autoplay_history_maxlen :: nat where
  "autoplay_history_maxlen = 20"

record music_queue =
  queue :: "song list"
  current :: "song option"
  is_playing :: bool
  voice_client :: "voice_client_t option"
  last_activity :: real
  connection_failures :: int
  max_connection_failures :: int
  autoplay_enabled :: bool
  last_played_songs :: "song list"
  autoplay_history :: "song list"
  autoplay_failures :: int
  last_autoplay_attempt :: real
  max_autoplay_duration :: int

text \<open>\<^verbatim>\<open>EnhancedMusicQueue.__init__\<close>; \<open>now\<close> is the value of \<^verbatim>\<open>time.time()\<close>.\<close>

definition EnhancedMusicQueue_init :: "real \<Rightarrow> music_queue" where
  "EnhancedMusicQueue_init now =
     \<lparr> queue = [],
       current = None,
       is_playing = False,
       voice_client = None,
       last_activity = now,
       connection_failures = 0,
       max_connection_failures = 3,
       autoplay_enabled = False,
       last_played_songs = [],
       autoplay_history = [],
       autoplay_failures = 0,
       last_autoplay_attempt = 0,
       max_autoplay_duration = 300 \<rparr>"

definition add_song :: "song \<Rightarrow> real \<Rightarrow> 'a music_queue_scheme \<Rightarrow> 'a music_queue_scheme" where
  "add_song s now mq = mq\<lparr> queue := queue mq @ [s], last_activity := now \<rparr>"

definition get_next_song :: "'a music_queue_scheme \<Rightarrow> song option \<times> 'a music_queue_scheme" where
  "get_next_song mq =
     (case queue mq of
        [] \<Rightarrow> (None, mq)
      | s # rest \<Rightarrow> (Some s, mq\<lparr> queue := rest \<rparr>))"

definition clear_queue :: "real \<Rightarrow> 'a music_queue_scheme \<Rightarrow> 'a music_queue_scheme" where
  "clear_queue now mq = mq\<lparr> queue := [], last_activity := now \<rparr>"

definition is_inactive :: "int \<Rightarrow> real \<Rightarrow> 'a music_queue_scheme \<Rightarrow> bool" where
  "is_inactive timeout_minutes now mq \<longleftrightarrow>
     now - last_activity mq > real_of_int (timeout_minutes * 60)"

definition reset_connection_failures :: "'a music_queue_scheme \<Rightarrow> 'a music_queue_scheme" where
  "reset_connection_failures mq = mq\<lparr> connection_failures := 0 \<rparr>"

definition increment_connection_failures :: "'a music_queue_scheme \<Rightarrow> 'a music_queue_scheme" where
  "increment_connection_failures mq = mq\<lparr> connection_failures := connection_failures mq + 1 \<rparr>"

definition should_give_up_connection :: "'a music_queue_scheme \<Rightarrow> bool" where
  "should_give_up_connection mq \<longleftrightarrow> connection_failures mq \<ge> max_connection_failures mq"

subsection \<open>Sequences of queue operations\<close>

text \<open>
  A caller's use of the queue: \<^verbatim>\<open>add_song(song)\<close> at a clock value, or
  \<^verbatim>\<open>get_next_song()\<close>. \<open>run_ops\<close> performs the calls in order and collects what each
  \<^verbatim>\<open>get_next_song()\<close> returned.
\<close>

datatype queue_op = Enqueue song real | DequeueNext

fun run_ops :: "queue_op list \<Rightarrow> 'a music_queue_scheme \<Rightarrow> song option list \<times> 'a music_queue_scheme" where
  "run_ops [] mq = ([], mq)"
| "run_ops (Enqueue s now # ops) mq = run_ops ops (add_song s now mq)"
| "run_ops (DequeueNext # ops) mq =
     (case get_next_song mq of (r, mq') \<Rightarrow>
        (case run_ops ops mq' of (rs, mq'') \<Rightarrow> (r # rs, mq'')))"

fun enqueued :: "queue_op list \<Rightarrow> song list" where
  "enqueued [] = []"
| "enqueued (Enqueue s now # ops) = s # enqueued ops"
| "enqueued (DequeueNext # ops) = enqueued ops"

fun returned :: "song option list \<Rightarrow> song list" where
  "returned [] = []"
| "returned (None # rs) = returned rs"
| "returned (Some s # rs) = s # returned rs"

subsection \<open>The completion callback and the volume command\<close>

text \<open>
  \<^verbatim>\<open>after_playing\<close>, the callback installed by \<^verbatim>\<open>play_next_song\<close>: it pushes the
  current song onto \<^verbatim>\<open>last_played_songs\<close> (a \<^verbatim>\<open>deque(maxlen=5)\<close>) and clears
  \<^verbatim>\<open>current\<close>; it then schedules \<^verbatim>\<open>play_next_in_queue\<close>, which is modelled below as a
  task of its own.
\<close>

definition after_playing :: "'a music_queue_scheme \<Rightarrow> 'a music_queue_scheme" where
  "after_playing mq =
     (case current mq of
        Some s \<Rightarrow> mq\<lparr> last_played_songs := deque_append last_played_maxlen (last_played_songs mq) s,
                     current := None \<rparr>
      | None \<Rightarrow> mq\<lparr> current := None \<rparr>)"

text \<open>
  The \<^verbatim>\<open>volume\<close> command. The reply is the embed that is sent. For the read form the code
  shows \<^verbatim>\<open>int(source.volume * 100)\<close>; the reply of the model carries the gain itself.
  The assignment \<^verbatim>\<open>source.volume = volume / 100.0\<close> goes through the setter of
  \<^verbatim>\<open>PCMVolumeTransformer\<close>, which stores \<^verbatim>\<open>max(value, 0.0)\<close>.
\<close>

datatype volume_reply =
    NoMusicPlaying
  | VolumeInfo real
  | VolumeInvalid
  | VolumeChanged int string

definition volume_status :: "int \<Rightarrow> string" where
  "volume_status v =
     (if v = 0 then ''Muted''
      else if v \<le> 50 then ''Low''
      else if v \<le> 100 then ''Normal''
      else ''High'')"

definition volume_cmd ::
  "int option \<Rightarrow> 'a music_queue_scheme \<Rightarrow> volume_reply \<times> 'a music_queue_scheme" where
  "volume_cmd vol mq =
     (case voice_client mq of
        None \<Rightarrow> (NoMusicPlaying, mq)
      | Some vc \<Rightarrow>
         (case current mq of
            None \<Rightarrow> (NoMusicPlaying, mq)
          | Some cur \<Rightarrow>
             (case source cur of
                None \<Rightarrow> (NoMusicPlaying, mq)
              | Some src \<Rightarrow>
                 (case vol of
                    None \<Rightarrow> (VolumeInfo (volume src), mq)
                  | Some v \<Rightarrow>
                     if v < 0 \<or> v > 200 then (VolumeInvalid, mq)
                     else (VolumeChanged v (volume_status v),
                           mq\<lparr> current :=
                                 Some (cur\<lparr> source :=
                                        Some (src\<lparr> volume := max (real_of_int v / 100) 0 \<rparr>) \<rparr>) \<rparr>)))))"

subsection \<open>RetryConfig and retry_async\<close>

record RetryConfig =
  max_attempts :: int
  delay :: real
  backoff :: real

text \<open>
  \<^verbatim>\<open>RetryConfig.__init__\<close> with its keyword defaults: an argument that is left out is
  \<open>None\<close> here.
\<close>

definition RetryConfig_init :: "int option \<Rightarrow> real option \<Rightarrow> real option \<Rightarrow> RetryConfig" where
  "RetryConfig_init ma d b =
     \<lparr> max_attempts = (case ma of None \<Rightarrow> 3 | Some n \<Rightarrow> n),
       delay = (case d of None \<Rightarrow> 1 | Some x \<Rightarrow> x),
       backoff = (case b of None \<Rightarrow> 2 | Some x \<Rightarrow> x) \<rparr>"

text \<open>What a call to the outside world does: it returns a value or raises.\<close>

datatype 'a outcome = Returned 'a | Raised string

text \<open>
  The frame of one execution of \<^verbatim>\<open>retry_async\<close>: the configuration object it was
  given, its locals \<^verbatim>\<open>delay\<close> and \<^verbatim>\<open>last_exception\<close>, the number of calls of
  \<^verbatim>\<open>func\<close> made so far, counted from the start of the program, and the durations it
  slept. \<open>func k\<close> is what the \<open>k\<close>-th call of \<^verbatim>\<open>func\<close> does.
\<close>

record retry_frame =
  config :: RetryConfig
  local_delay :: real
  last_exception :: "string option"
  calls :: nat
  slept :: "real list"

fun retry_loop :: "(nat \<Rightarrow> 'a outcome) \<Rightarrow> nat list \<Rightarrow> retry_frame \<Rightarrow> 'a outcome \<times> retry_frame" where
  "retry_loop func [] fr =
     (case last_exception fr of
        Some e \<Rightarrow> (Raised e, fr)
      | None \<Rightarrow> (Raised ''All retry attempts failed'', fr))"
| "retry_loop func (attempt # rest) fr =
     (case func (calls fr) of
        Returned v \<Rightarrow> (Returned v, fr\<lparr> calls := Suc (calls fr) \<rparr>)
      | Raised e \<Rightarrow>
          (let fr1 = fr\<lparr> calls := Suc (calls fr), last_exception := Some e \<rparr>;
               fr2 = (if int attempt < max_attempts (config fr1) - 1
                      then fr1\<lparr> slept := slept fr1 @ [local_delay fr1],
                                local_delay := local_delay fr1 * backoff (config fr1) \<rparr>
                      else fr1)
           in retry_loop func rest fr2))"

definition retry_async ::
  "(nat \<Rightarrow> 'a outcome) \<Rightarrow> RetryConfig \<Rightarrow> nat \<Rightarrow> 'a outcome \<times> retry_frame" where
  "retry_async func cfg start =
     retry_loop func [0 ..< nat (max_attempts cfg)]
       \<lparr> config = cfg, local_delay = delay cfg, last_exception = None,
         calls = start, slept = [] \<rparr>"

subsection \<open>Configuration objects in the store\<close>

text \<open>
  A \<^verbatim>\<open>RetryConfig\<close> is an object of a plain class: a parameter or a default value holds a
  reference to it, and whoever holds the reference can assign to its attributes. The store
  lists the \<^verbatim>\<open>RetryConfig\<close> objects created so far, a reference being a position in that
  list, together with the two references that the functions keep as default values. Python
  evaluates the expression of a default value once, when the \<^verbatim>\<open>def\<close> statement is
  executed: \<^verbatim>\<open>config: RetryConfig = RetryConfig()\<close> of \<^verbatim>\<open>retry_async\<close> (line 125) and
  \<^verbatim>\<open>retry_config=RetryConfig()\<close> of \<^verbatim>\<open>from_url\<close> (line 157). A call that leaves the
  argument out is handed the object made then.
\<close>

record store =
  objects :: "RetryConfig list"
  retry_async_default :: nat
  from_url_default :: nat




definition set_delay :: "nat \<Rightarrow> real \<Rightarrow> store \<Rightarrow> store" where
  "set_delay r x st = st\<lparr> objects := (objects st)[r := (objects st ! r)\<lparr> delay := x \<rparr>] \<rparr>"

definition set_backoff :: "nat \<Rightarrow> real \<Rightarrow> store \<Rightarrow> store" where
  "set_backoff r x st = st\<lparr> objects := (objects st)[r := (objects st ! r)\<lparr> backoff := x \<rparr>] \<rparr>"




subsection \<open>The playback driver\<close>

text \<open>
  What a task does that the outside can see: sleeping, asking the media resolver for the
  stream of a song (the song is named by its identity), the notices sent to the chat, and
  the calls to the voice gateway.
\<close>

datatype event =
    Sleep real
  | Load nat
  | LoadFailed nat
  | NowPlaying nat
  | QueueFinished
  | Recommend nat
  | AutoplayNotice nat
  | MoveTo nat
  | Connect nat
  | Disconnect

text \<open>
  The session together with the bookkeeping of the model: the events so far, the number of
  calls of \<^verbatim>\<open>_extract_info\<close> so far, and the next free object identity.
\<close>

record world = music_queue +
  events :: "event list"
  extract_calls :: nat
  next_id :: nat

definition emit :: "event list \<Rightarrow> world \<Rightarrow> world" where
  "emit es w = w\<lparr> events := events w @ es \<rparr>"

text \<open>
  \<^verbatim>\<open>EnhancedYTDLSource.from_url\<close>: \<^verbatim>\<open>_extract_info\<close> under \<^verbatim>\<open>retry_async\<close>. On
  success the source is built with the default \<^verbatim>\<open>volume=0.5\<close>.
\<close>

definition from_url ::
  "(nat \<Rightarrow> unit outcome) \<Rightarrow> RetryConfig \<Rightarrow> world \<Rightarrow> ytdl_source outcome \<times> world" where
  "from_url extract retry_config w =
     (case retry_async extract retry_config (extract_calls w) of
        (r, fr) \<Rightarrow>
          ((case r of Returned u \<Rightarrow> Returned \<lparr> volume = 1 / 2 \<rparr> | Raised e \<Rightarrow> Raised e),
           emit (map Sleep (slept fr)) (w\<lparr> extract_calls := calls fr \<rparr>)))"

text \<open>
  \<^verbatim>\<open>play_next_song\<close>. The parameter \<^verbatim>\<open>status_msg\<close> only chooses between editing a
  message and sending a new one and is left out; \<^verbatim>\<open>voice_client.play\<close> is taken to
  succeed.
\<close>

definition pop_if_idle :: "world \<Rightarrow> world" where
  "pop_if_idle w =
     (if current w = None
      then (case get_next_song w of (s, w') \<Rightarrow> w'\<lparr> current := s \<rparr>)
      else w)"

text \<open>
  The \<^verbatim>\<open>try\<close> block around \<^verbatim>\<open>from_url\<close>: \<open>cur\<close> is \<^verbatim>\<open>music_queue.current\<close>, and
  the configuration is the \<^verbatim>\<open>RetryConfig(max_attempts=3, delay=2.0)\<close> built by the call.
\<close>

definition load_attempt :: "(nat \<Rightarrow> unit outcome) \<Rightarrow> world \<Rightarrow> song \<Rightarrow> ytdl_source outcome \<times> world" where
  "load_attempt extract w cur =
     from_url extract (RetryConfig_init (Some 3) (Some 2) None)
       (emit [Load (song_id cur)] ((pop_if_idle w)\<lparr> is_playing := True \<rparr>))"

function play_next_song :: "(nat \<Rightarrow> unit outcome) \<Rightarrow> world \<Rightarrow> world" where
  "play_next_song extract w =
     (case current (pop_if_idle w) of
        None \<Rightarrow> emit [QueueFinished] ((pop_if_idle w)\<lparr> is_playing := False \<rparr>)
      | Some cur \<Rightarrow>
          (case load_attempt extract w cur of
             (Raised e, w3) \<Rightarrow>
               if retry_count cur < max_retries cur
               then play_next_song extract
                      (emit [Sleep 2] (w3\<lparr> current := Some (cur\<lparr> retry_count := retry_count cur + 1 \<rparr>) \<rparr>))
               else
                 (let w4 = (emit [LoadFailed (song_id cur)] w3)\<lparr> current := None \<rparr> in
                  if queue w4 \<noteq> []
                  then play_next_song extract (emit [Sleep 2] w4)
                  else w4\<lparr> is_playing := False \<rparr>)
           | (Returned src, w3) \<Rightarrow>
               (let w4 = w3\<lparr> current := Some (cur\<lparr> source := Some src \<rparr>) \<rparr> in
                case voice_client w4 of
                  None \<Rightarrow> w4\<lparr> is_playing := False \<rparr>
                | Some vc \<Rightarrow>
                    if \<not> is_connected vc then w4\<lparr> is_playing := False \<rparr>
                    else emit [NowPlaying (song_id cur)] w4)))"
  by pat_completeness auto

text \<open>
  Termination: a retry keeps the number of songs the session holds and uses up one of the
  retries left for the current song; skipping a song leaves one song fewer.
\<close>

definition pending :: "world \<Rightarrow> nat" where
  "pending w = length (queue w) + (if current w = None then 0 else 1)"

definition retries_left :: "world \<Rightarrow> nat" where
  "retries_left w =
     (case current (pop_if_idle w) of
        None \<Rightarrow> 0
      | Some s \<Rightarrow> nat (max_retries s - retry_count s))"

lemma load_attempt_session:
  "load_attempt extract w cur = (r, w') \<Longrightarrow>
     queue w' = queue (pop_if_idle w) \<and> current w' = current (pop_if_idle w)"
  by (auto simp: load_attempt_def from_url_def emit_def split: prod.splits)

termination play_next_song
  apply (relation "measures [\<lambda>(e, w). pending w, \<lambda>(e, w). retries_left w]")
    apply simp
   apply (drule load_attempt_session [OF sym])
   apply (auto simp: pending_def retries_left_def pop_if_idle_def get_next_song_def emit_def
               split: if_splits list.splits)[1]
  apply (drule load_attempt_session [OF sym])
  apply (auto simp: pending_def retries_left_def pop_if_idle_def get_next_song_def emit_def
              split: if_splits list.splits)[1]
  done

declare play_next_song.simps [simp del]

subsection \<open>The connection manager\<close>

text \<open>
  \<^verbatim>\<open>connect_to_voice_channel\<close>. \<open>gateway i\<close> is what the gateway call of loop iteration
  \<open>i\<close> does (\<^verbatim>\<open>move_to\<close> or \<^verbatim>\<open>voice_channel.connect(timeout=15.0)\<close>, at most one
  of them per iteration): it succeeds, times out, or raises another exception. The
  two \<^verbatim>\<open>except\<close> blocks differ in the log line only. The exceptions of
  \<^verbatim>\<open>disconnect()\<close> are swallowed by the code.
\<close>

datatype conn_outcome = Established | TimedOut | ConnError string

definition max_attempts_connect :: int where
  "max_attempts_connect = 3"

definition fresh_connect :: "(nat \<Rightarrow> conn_outcome) \<Rightarrow> nat \<Rightarrow> nat \<Rightarrow> world \<Rightarrow> world + world" where
  "fresh_connect gateway target attempt w =
     (case gateway attempt of
        Established \<Rightarrow>
          Inr (reset_connection_failures
                 ((emit [Connect target] w)\<lparr> voice_client := Some \<lparr> is_connected = True, channel = target \<rparr> \<rparr>))
      | _ \<Rightarrow> Inl (emit [Connect target] w))"

text \<open>The \<^verbatim>\<open>try\<close> block: \<open>Inr\<close> when it returns \<^verbatim>\<open>True\<close>, \<open>Inl\<close> when it raises.\<close>

definition try_connect :: "(nat \<Rightarrow> conn_outcome) \<Rightarrow> nat \<Rightarrow> nat \<Rightarrow> world \<Rightarrow> world + world" where
  "try_connect gateway target attempt w =
     (case voice_client w of
        None \<Rightarrow> fresh_connect gateway target attempt w
      | Some vc \<Rightarrow>
          if is_connected vc then
            (if channel vc = target then Inr (reset_connection_failures w)
             else
               (case gateway attempt of
                  Established \<Rightarrow>
                    Inr (reset_connection_failures
                           ((emit [MoveTo target] w)\<lparr> voice_client := Some (vc\<lparr> channel := target \<rparr>) \<rparr>))
                | _ \<Rightarrow> Inl (emit [MoveTo target] w)))
          else fresh_connect gateway target attempt ((emit [Disconnect] w)\<lparr> voice_client := None \<rparr>))"

text \<open>The \<^verbatim>\<open>except\<close> block of iteration \<open>attempt\<close>.\<close>

definition on_connect_error :: "nat \<Rightarrow> world \<Rightarrow> world" where
  "on_connect_error attempt w =
     (let w1 = increment_connection_failures w;
          w2 = (case voice_client w1 of
                  None \<Rightarrow> w1
                | Some vc \<Rightarrow> (emit [Disconnect] w1)\<lparr> voice_client := None \<rparr>)
      in if int attempt < max_attempts_connect - 1
         then emit [Sleep (2 ^ attempt)] w2
         else w2)"

fun connect_loop :: "(nat \<Rightarrow> conn_outcome) \<Rightarrow> nat \<Rightarrow> nat list \<Rightarrow> world \<Rightarrow> bool \<times> world" where
  "connect_loop gateway target [] w = (False, w)"
| "connect_loop gateway target (attempt # rest) w =
     (case try_connect gateway target attempt w of
        Inr w' \<Rightarrow> (True, w')
      | Inl w' \<Rightarrow> connect_loop gateway target rest (on_connect_error attempt w'))"

definition connect_to_voice_channel :: "(nat \<Rightarrow> conn_outcome) \<Rightarrow> nat \<Rightarrow> world \<Rightarrow> bool \<times> world" where
  "connect_to_voice_channel gateway target w =
     connect_loop gateway target [0 ..< nat max_attempts_connect] w"

text \<open>The gateway calls among a list of events.\<close>

fun is_connect_attempt :: "event \<Rightarrow> bool" where
  "is_connect_attempt (Connect c) = True"
| "is_connect_attempt (MoveTo c) = True"
| "is_connect_attempt _ = False"

fun sleeps :: "event list \<Rightarrow> real list" where
  "sleeps [] = []"
| "sleeps (Sleep d # es) = d # sleeps es"
| "sleeps (_ # es) = sleeps es"

subsection \<open>The autoplay recommender\<close>

text \<open>
  A track of \<^verbatim>\<open>spotify.recommendations(...)['tracks']\<close> and an entry of a YouTube search,
  with the fields the code reads. A field the code reads with \<^verbatim>\<open>result.get(key, default)\<close>
  is \<open>None\<close> when the key is absent.
\<close>

record spotify_track =
  track_name :: pystr
  track_artists :: "pystr list"
  duration_ms :: int
  album_images :: "pystr list"
  external_url :: pystr

record yt_result =
  yt_title :: "pystr option"
  uploader :: "pystr option"
  webpage_url :: "pystr option"
  yt_duration :: "int option"
  yt_thumbnail :: "pystr option"

text \<open>
  The providers. \<open>spotify\<close> and \<open>ytdl\<close> say whether the module-level clients exist.
  \<open>spotify_recommendations track_id limit\<close> is the call of \<^verbatim>\<open>spotify.recommendations\<close>.
  \<open>youtube_search i query\<close> is \<^verbatim>\<open>enhanced_youtube_search(query)\<close> made for the track at
  position \<open>i\<close>, and \<open>youtube_search_multiple i query limit\<close> is
  \<^verbatim>\<open>enhanced_youtube_search_multiple(query, limit)\<close> for the query at position \<open>i\<close>; each of
  them returns, or the enclosing \<^verbatim>\<open>async_timeout.timeout(20)\<close> raises. \<open>unicodedata\<close> is
  the character database of the interpreter the bot runs on.
\<close>

record providers =
  spotify :: bool
  ytdl :: bool
  spotify_recommendations :: "pystr \<Rightarrow> int \<Rightarrow> spotify_track list outcome"
  youtube_search :: "nat \<Rightarrow> pystr \<Rightarrow> pystr option outcome"
  youtube_search_multiple :: "nat \<Rightarrow> pystr \<Rightarrow> int \<Rightarrow> yt_result list outcome"
  unicodedata :: ucd

definition spotify_is_duplicate :: "ucd \<Rightarrow> song list \<Rightarrow> pystr \<Rightarrow> pystr \<Rightarrow> bool" where
  "spotify_is_duplicate u hist track_title track_artist =
     list_ex (\<lambda>h. str_in track_title (str_lower u (title h)) \<and> str_in track_artist (str_lower u (artist h))) hist"

text \<open>
  The loop over the recommended tracks; \<open>recs\<close> is \<^verbatim>\<open>recommendations\<close> and \<open>nid\<close> the next
  free object identity. An exception (\<^verbatim>\<open>track['artists'][0]\<close> on a track without artists,
  or the timeout) leaves the loop with the songs collected so far.
\<close>

fun spotify_loop ::
  "providers \<Rightarrow> song list \<Rightarrow> int \<Rightarrow> int \<Rightarrow> nat \<Rightarrow> spotify_track list \<Rightarrow> song list \<times> nat \<Rightarrow> song list \<times> nat" where
  "spotify_loop prov hist max_songs max_duration i [] (recs, nid) = (recs, nid)"
| "spotify_loop prov hist max_songs max_duration i (track # tracks) (recs, nid) =
     (if int (length recs) \<ge> max_songs then (recs, nid)
      else
        (let track_duration = duration_ms track div 1000 in
         if track_duration > max_duration
         then spotify_loop prov hist max_songs max_duration (Suc i) tracks (recs, nid)
         else
           (case track_artists track of
              [] \<Rightarrow> (recs, nid)
            | first_artist # others \<Rightarrow>
                if spotify_is_duplicate (unicodedata prov) hist
                     (str_lower (unicodedata prov) (track_name track))
                     (str_lower (unicodedata prov) first_artist)
                then spotify_loop prov hist max_songs max_duration (Suc i) tracks (recs, nid)
                else
                  (case youtube_search prov i (track_name track @ py_str '' '' @ first_artist) of
                     Raised e \<Rightarrow> (recs, nid)
                   | Returned None \<Rightarrow> spotify_loop prov hist max_songs max_duration (Suc i) tracks (recs, nid)
                   | Returned (Some url) \<Rightarrow>
                       if url = []
                       then spotify_loop prov hist max_songs max_duration (Suc i) tracks (recs, nid)
                       else spotify_loop prov hist max_songs max_duration (Suc i) tracks
                              (recs @ [Song_init nid
                                         (Some (track_name track))
                                         (Some (str_join (py_str '', '') (track_artists track)))
                                         (Some track_duration)
                                         (case album_images track of [] \<Rightarrow> None | img # imgs \<Rightarrow> Some img)
                                         url
                                         (Some (external_url track))],
                               Suc nid)))))"

definition spotify_strategy ::
  "providers \<Rightarrow> song \<Rightarrow> song list \<Rightarrow> int \<Rightarrow> int \<Rightarrow> song list \<times> nat \<Rightarrow> song list \<times> nat" where
  "spotify_strategy prov last_song hist max_songs max_duration acc =
     (if spotify prov \<and> int (length (fst acc)) < max_songs then
        (case spotify_data last_song of
           None \<Rightarrow> acc
         | Some spotify_url \<Rightarrow>
             if spotify_url = [] then acc
             else
               (let track_id = hd (str_split (of_char (CHR ''?'')) (last (str_split (of_char (CHR ''/'')) spotify_url))) in
                if track_id \<noteq> [] \<and> length track_id = 22 then
                  (case spotify_recommendations prov track_id max_songs of
                     Raised e \<Rightarrow> acc
                   | Returned tracks \<Rightarrow> spotify_loop prov hist max_songs max_duration 0 tracks acc)
                else acc))
      else acc)"

definition youtube_is_duplicate :: "ucd \<Rightarrow> song list \<Rightarrow> song \<Rightarrow> pystr \<Rightarrow> pystr \<Rightarrow> bool" where
  "youtube_is_duplicate u hist last_song ttl url =
     list_ex (\<lambda>h. (str_in (str_lower u ttl) (str_lower u (title h))
                      \<or> str_in (str_lower u (title h)) (str_lower u ttl))
                   \<or> youtube_url h = url
                   \<or> str_lower u ttl = str_lower u (title last_song)) hist"

fun youtube_results_loop ::
  "ucd \<Rightarrow> song list \<Rightarrow> song \<Rightarrow> int \<Rightarrow> int \<Rightarrow> yt_result list \<Rightarrow> song list \<times> nat \<Rightarrow> song list \<times> nat" where
  "youtube_results_loop u hist last_song max_songs max_duration [] (recs, nid) = (recs, nid)"
| "youtube_results_loop u hist last_song max_songs max_duration (result # results) (recs, nid) =
     (if int (length recs) \<ge> max_songs then (recs, nid)
      else
        (let ttl = (case yt_title result of None \<Rightarrow> py_str ''Unknown Title'' | Some t \<Rightarrow> t);
             art = (case uploader result of None \<Rightarrow> py_str ''Unknown Artist'' | Some a \<Rightarrow> a);
             url = (case webpage_url result of None \<Rightarrow> [] | Some u \<Rightarrow> u);
             dur = (case yt_duration result of None \<Rightarrow> 0 | Some d \<Rightarrow> d)
         in
         if dur \<noteq> 0 \<and> dur > max_duration
         then youtube_results_loop u hist last_song max_songs max_duration results (recs, nid)
         else if \<not> youtube_is_duplicate u hist last_song ttl url \<and> url \<noteq> []
         then youtube_results_loop u hist last_song max_songs max_duration results
                (recs @ [Song_init nid (Some ttl) (Some art) (Some dur) (yt_thumbnail result) url None],
                 Suc nid)
         else youtube_results_loop u hist last_song max_songs max_duration results (recs, nid)))"

fun youtube_queries_loop ::
  "providers \<Rightarrow> song list \<Rightarrow> song \<Rightarrow> int \<Rightarrow> int \<Rightarrow> nat \<Rightarrow> pystr list \<Rightarrow> song list \<times> nat \<Rightarrow> song list \<times> nat" where
  "youtube_queries_loop prov hist last_song max_songs max_duration i [] (recs, nid) = (recs, nid)"
| "youtube_queries_loop prov hist last_song max_songs max_duration i (query # queries) (recs, nid) =
     (if int (length recs) \<ge> max_songs then (recs, nid)
      else
        (case youtube_search_multiple prov i query (max_songs - int (length recs)) of
           Raised e \<Rightarrow>
             youtube_queries_loop prov hist last_song max_songs max_duration (Suc i) queries (recs, nid)
         | Returned results \<Rightarrow>
             youtube_queries_loop prov hist last_song max_songs max_duration (Suc i) queries
               (youtube_results_loop (unicodedata prov) hist last_song max_songs max_duration results
                  (recs, nid))))"

definition youtube_strategy ::
  "providers \<Rightarrow> song \<Rightarrow> song list \<Rightarrow> int \<Rightarrow> int \<Rightarrow> song list \<times> nat \<Rightarrow> song list \<times> nat" where
  "youtube_strategy prov last_song hist max_songs max_duration acc =
     (if int (length (fst acc)) < max_songs \<and> ytdl prov then
        (let artist_name = str_strip (hd (str_split (of_char (CHR '','')) (artist last_song)));
             search_queries =
               [artist_name @ py_str '' lagu terbaru'',
                artist_name @ py_str '' lagu populer'',
                title last_song @ py_str '' remix'',
                py_str ''musik '' @ artist_name]
         in youtube_queries_loop prov hist last_song max_songs max_duration 0 search_queries acc)
      else acc)"

text \<open>
  \<^verbatim>\<open>get_autoplay_recommendations\<close>. The history is read while the candidates are
  collected and extended by the new songs only afterwards.
\<close>

definition get_autoplay_recommendations ::
  "providers \<Rightarrow> song \<Rightarrow> int \<Rightarrow> int \<Rightarrow> world \<Rightarrow> song list \<times> world" where
  "get_autoplay_recommendations prov last_song max_songs max_duration w =
     (case youtube_strategy prov last_song (autoplay_history w) max_songs max_duration
             (spotify_strategy prov last_song (autoplay_history w) max_songs max_duration
                ([], next_id w)) of
        (recommendations, nid) \<Rightarrow>
          (recommendations,
           w\<lparr> autoplay_history :=
                 foldl (deque_append autoplay_history_maxlen) (autoplay_history w) recommendations,
               next_id := nid \<rparr>))"

subsection \<open>Advancing after a track has ended\<close>

text \<open>
  \<^verbatim>\<open>play_next_in_queue\<close>. \<open>clock k\<close> is the value of the \<open>k\<close>-th reading of
  \<^verbatim>\<open>time.time()\<close> made by the call. The \<^verbatim>\<open>except\<close> block of the autoplay attempt is
  not reached here, since \<^verbatim>\<open>get_autoplay_recommendations\<close> catches what its providers
  raise and sending a message is taken to succeed.
\<close>

fun add_songs :: "song list \<Rightarrow> (nat \<Rightarrow> real) \<Rightarrow> nat \<Rightarrow> world \<Rightarrow> world" where
  "add_songs [] clock k w = w"
| "add_songs (s # ss) clock k w = add_songs ss clock (Suc k) (add_song s (clock k) w)"

definition queue_drained :: "world \<Rightarrow> world" where
  "queue_drained w =
     (let w' = w\<lparr> is_playing := False \<rparr> in
      if \<not> autoplay_enabled w' then emit [QueueFinished] w' else w')"

definition autoplay_due :: "real \<Rightarrow> world \<Rightarrow> bool" where
  "autoplay_due now w \<longleftrightarrow>
     autoplay_enabled w \<and> last_played_songs w \<noteq> [] \<and> autoplay_failures w < 3
     \<and> now - last_autoplay_attempt w > 30"

definition autoplay_attempt ::
  "(nat \<Rightarrow> unit outcome) \<Rightarrow> providers \<Rightarrow> (nat \<Rightarrow> real) \<Rightarrow> world \<Rightarrow> world" where
  "autoplay_attempt extract prov clock w =
     (let w2 = w\<lparr> last_autoplay_attempt := clock 1 \<rparr>;
          last_song = last (last_played_songs w2)
      in case get_autoplay_recommendations prov last_song 3 300
                (emit [Recommend (song_id last_song)] w2) of
           (recommendations, w3) \<Rightarrow>
             if recommendations \<noteq> [] then
               (let w4 = w3\<lparr> autoplay_failures := 0 \<rparr>;
                    w5 = add_songs recommendations clock 2 w4;
                    w6 = emit [AutoplayNotice (length recommendations)] w5
                in case get_next_song w6 of
                     (nxt, w7) \<Rightarrow>
                       (case nxt of
                          Some s \<Rightarrow> play_next_song extract (w7\<lparr> current := nxt \<rparr>)
                        | None \<Rightarrow> queue_drained (w7\<lparr> current := nxt \<rparr>)))
             else queue_drained (w3\<lparr> autoplay_failures := autoplay_failures w3 + 1 \<rparr>))"

definition play_next_in_queue ::
  "(nat \<Rightarrow> unit outcome) \<Rightarrow> providers \<Rightarrow> (nat \<Rightarrow> real) \<Rightarrow> world \<Rightarrow> world" where
  "play_next_in_queue extract prov clock w =
     (case get_next_song w of
        (nxt, w0) \<Rightarrow>
          (let w1 = w0\<lparr> current := nxt \<rparr> in
           case nxt of
             Some s \<Rightarrow> play_next_song extract w1
           | None \<Rightarrow>
               if autoplay_due (clock 0) w1
               then autoplay_attempt extract prov clock w1
               else queue_drained w1))"

subsection \<open>Notions used in the statements\<close>

text \<open>The retry counter of a song is within its cap.\<close>

definition retry_ok :: "song \<Rightarrow> bool" where
  "retry_ok s \<longleftrightarrow> retry_count s \<le> max_retries s"


text \<open>
  In a list of events, no song is loaded again after the driver has given it up.
\<close>

fun never_reloaded :: "event list \<Rightarrow> bool" where
  "never_reloaded [] = True"
| "never_reloaded (LoadFailed i # es) = (Load i \<notin> set es \<and> never_reloaded es)"
| "never_reloaded (e # es) = never_reloaded es"

text \<open>The events a task added when it took the world from \<open>w\<close> to \<open>w'\<close>.\<close>

definition new_events :: "world \<Rightarrow> world \<Rightarrow> event list" where
  "new_events w w' = drop (length (events w)) (events w')"

text \<open>
  A session as \<^verbatim>\<open>get_music_queue\<close> creates it, before any event, and a song as
  \<^verbatim>\<open>Song(...)\<close> builds it, for the concrete runs below.
\<close>

definition fresh_world :: "real \<Rightarrow> world" where
  "fresh_world now =
     \<lparr> queue = [], current = None, is_playing = False, voice_client = None,
       last_activity = now, connection_failures = 0, max_connection_failures = 3,
       autoplay_enabled = False, last_played_songs = [], autoplay_history = [],
       autoplay_failures = 0, last_autoplay_attempt = 0, max_autoplay_duration = 300,
       events = [], extract_calls = 0, next_id = 0 \<rparr>"

definition demo_song :: "nat \<Rightarrow> song" where
  "demo_song i = Song_init i (Some (py_str ''t'')) (Some (py_str ''a'')) (Some 200) None (py_str ''u'') None"

definition always_failing :: "nat \<Rightarrow> unit outcome" where
  "always_failing k = Raised ''Extraction timeout''"

text \<open>The gain factor of the active stream, if there is one.\<close>

definition gain :: "'a music_queue_scheme \<Rightarrow> real option" where
  "gain mq =
     (case current mq of
        None \<Rightarrow> None
      | Some cur \<Rightarrow> (case source cur of None \<Rightarrow> None | Some src \<Rightarrow> Some (volume src)))"

text \<open>The fields of the session that playing songs does not touch.\<close>

definition session_frame ::
  "world \<Rightarrow> real \<times> song list \<times> song list \<times> int \<times> real \<times> bool \<times> voice_client_t option \<times> int \<times> nat" where
  "session_frame w =
     (last_activity w, last_played_songs w, autoplay_history w, autoplay_failures w,
      last_autoplay_attempt w, autoplay_enabled w, voice_client w, connection_failures w, next_id w)"

text \<open>Both history rings are within their capacity.\<close>

definition rings_ok :: "'a music_queue_scheme \<Rightarrow> bool" where
  "rings_ok mq \<longleftrightarrow>
     length (last_played_songs mq) \<le> last_played_maxlen
     \<and> length (autoplay_history mq) \<le> autoplay_history_maxlen"

text \<open>
  One round of \<^verbatim>\<open>enhanced_cleanup_task\<close> for one session; \<open>disconnect_ok\<close> says whether
  \<^verbatim>\<open>voice_client.disconnect()\<close> returns or raises.
\<close>

definition cleanup_session :: "bool \<Rightarrow> real \<Rightarrow> world \<Rightarrow> world" where
  "cleanup_session disconnect_ok now w =
     (case voice_client w of
        None \<Rightarrow> w
      | Some vc \<Rightarrow>
          if \<not> is_connected vc
          then clear_queue now (w\<lparr> voice_client := None, is_playing := False, current := None \<rparr>)
          else if is_inactive 15 now w
          then (if disconnect_ok
                then clear_queue now
                       ((emit [Disconnect] w)\<lparr> voice_client := None, is_playing := False, current := None \<rparr>)
                else emit [Disconnect] w)
          else w)"

text \<open>More concrete inputs: a resolver that always succeeds, absent providers, and a session that is playing its second song at time 901.\<close>

definition always_loading :: "nat \<Rightarrow> unit outcome" where
  "always_loading k = Returned ()"

definition no_providers :: providers where
  "no_providers =
     \<lparr> spotify = False, ytdl = False,
       spotify_recommendations = (\<lambda>track_id limit. Raised ''no client''),
       youtube_search = (\<lambda>i query. Returned None),
       youtube_search_multiple = (\<lambda>i query limit. Returned []),
       unicodedata = \<lparr> lower_full = (\<lambda>c. [c]), cased = (\<lambda>c. False), case_ignorable = (\<lambda>c. False) \<rparr> \<rparr>"

definition busy_session :: world where
  "busy_session =
     play_next_in_queue always_loading no_providers (\<lambda>k. 901)
       (after_playing
          (play_next_song always_loading
             (add_song (demo_song 2) 0
                (add_song (demo_song 1) 0
                   ((fresh_world 0)\<lparr> voice_client := Some \<lparr> is_connected = True, channel = 1 \<rparr> \<rparr>)))))"

text \<open>The session already has a live voice client in the target channel.\<close>

definition already_connected :: "nat \<Rightarrow> world \<Rightarrow> bool" where
  "already_connected target w =
     (case voice_client w of
        None \<Rightarrow> False
      | Some vc \<Rightarrow> is_connected vc \<and> channel vc = target)"

text \<open>A gateway whose calls time out, except the second, which is refused.\<close>

definition never_established :: "nat \<Rightarrow> conn_outcome" where
  "never_established i = (if i = 1 then ConnError ''refused'' else TimedOut)"


text \<open>
  Two songs have the same title and the same artist once \<^verbatim>\<open>lower()\<close> has been applied to
  them; a recommended song
  is acceptable when its duration, if it has one, is within the cap and it has no such twin in
  the history.
\<close>

definition same_title_artist :: "ucd \<Rightarrow> song \<Rightarrow> song \<Rightarrow> bool" where
  "same_title_artist u r h \<longleftrightarrow>
     str_lower u (title r) = str_lower u (title h) \<and> str_lower u (artist r) = str_lower u (artist h)"

definition acceptable :: "ucd \<Rightarrow> song list \<Rightarrow> int \<Rightarrow> song \<Rightarrow> bool" where
  "acceptable u hist max_duration r \<longleftrightarrow>
     (case duration r of None \<Rightarrow> True | Some d \<Rightarrow> d \<le> max_duration)
     \<and> \<not> list_ex (same_title_artist u r) hist"

text \<open>The invariant of the loops that collect \<^verbatim>\<open>recommendations\<close>.\<close>

definition recs_ok :: "ucd \<Rightarrow> int \<Rightarrow> song list \<Rightarrow> int \<Rightarrow> song list \<Rightarrow> bool" where
  "recs_ok u max_songs hist max_duration recs \<longleftrightarrow>
     int (length recs) \<le> max 0 max_songs \<and> list_all (acceptable u hist max_duration) recs"

text \<open>The events \<^verbatim>\<open>play_next_song\<close> and the end-of-queue notice produce.\<close>

fun playback_event :: "event \<Rightarrow> bool" where
  "playback_event (Sleep d) = True"
| "playback_event (Load i) = True"
| "playback_event (LoadFailed i) = True"
| "playback_event (NowPlaying i) = True"
| "playback_event QueueFinished = True"
| "playback_event _ = False"

text \<open>
  The session as \<^verbatim>\<open>play_next_in_queue\<close> hands it to the recommender when it starts an
  autoplay attempt on an empty queue.
\<close>

definition attempt_state :: "(nat \<Rightarrow> real) \<Rightarrow> world \<Rightarrow> world" where
  "attempt_state clock w =
     emit [Recommend (song_id (last (last_played_songs w)))]
       (w\<lparr> current := None, last_autoplay_attempt := clock 1 \<rparr>)"

text \<open>
  A character database for concrete runs. It has the entries of the Unicode database for
  the code points 128 to 255, for the Greek letters U+0391 to U+03C9, for the dotted capital
  I (U+0130) and for the combining dot above (U+0307); any other code point it takes to be
  uncased and its own lower-case form.
\<close>

definition demo_ucd :: ucd where
  "demo_ucd =
     \<lparr> lower_full =
         (\<lambda>c. if (192 \<le> c \<and> c \<le> 222 \<and> c \<noteq> 215) \<or> (913 \<le> c \<and> c \<le> 939 \<and> c \<noteq> 930) then [c + 32]
              else if c = 304 then [105, 775]
              else [c]),
       cased =
         (\<lambda>c. c = 170 \<or> c = 181 \<or> c = 186 \<or> (192 \<le> c \<and> c \<le> 255 \<and> c \<noteq> 215 \<and> c \<noteq> 247)
              \<or> c = 304 \<or> (913 \<le> c \<and> c \<le> 969 \<and> c \<noteq> 930)),
       case_ignorable =
         (\<lambda>c. c = 168 \<or> c = 173 \<or> c = 175 \<or> c = 180 \<or> c = 183 \<or> c = 184 \<or> c = 775) \<rparr>"

text \<open>A seed song, a history and providers for a concrete run of the recommender.\<close>

definition demo_seed :: song where
  "demo_seed =
     Song_init 0 (Some (py_str ''Under Pressure'')) (Some (py_str ''Queen, David Bowie'')) (Some 248) None
       (py_str ''https://youtu.be/up'')
       (Some (py_str ''https://open.spotify.com/track/0123456789abcdefghijkl?si=1''))"

definition demo_history :: "song list" where
  "demo_history =
     [Song_init 1 (Some (py_str ''Radio Ga Ga'')) (Some (py_str ''Queen'')) (Some 343) None
        (py_str ''https://youtu.be/rgg'') None]"

definition demo_providers :: providers where
  "demo_providers =
     \<lparr> spotify = True, ytdl = True,
       spotify_recommendations = (\<lambda>track_id limit. Returned
          [\<lparr> track_name = py_str ''RADIO GA GA'', track_artists = [py_str ''Queen''], duration_ms = 200000,
              album_images = [], external_url = py_str ''https://open.spotify.com/track/a'' \<rparr>,
           \<lparr> track_name = py_str ''Bohemian Rhapsody'', track_artists = [py_str ''Queen''],
              duration_ms = 354000,
              album_images = [], external_url = py_str ''https://open.spotify.com/track/b'' \<rparr>,
           \<lparr> track_name = py_str ''Heroes'', track_artists = [py_str ''David Bowie''], duration_ms = 210999,
              album_images = [py_str ''https://i.scdn.co/h''],
              external_url = py_str ''https://open.spotify.com/track/c'' \<rparr>]),
       youtube_search = (\<lambda>i query. Returned (Some (py_str ''https://youtu.be/found''))),
       youtube_search_multiple = (\<lambda>i query limit. Returned
          [\<lparr> yt_title = Some (py_str ''radio ga ga (live)''), uploader = Some (py_str ''fan''),
              webpage_url = Some (py_str ''https://youtu.be/live''),
              yt_duration = Some 100, yt_thumbnail = None \<rparr>,
           \<lparr> yt_title = Some (py_str ''One hour mix''), uploader = Some (py_str ''fan''),
              webpage_url = Some (py_str ''https://youtu.be/mix''),
              yt_duration = Some 3600, yt_thumbnail = None \<rparr>,
           \<lparr> yt_title = Some (py_str ''Killer Queen''), uploader = Some (py_str ''Queen Official''),
              webpage_url = Some (py_str ''https://youtu.be/kq''),
              yt_duration = Some 180, yt_thumbnail = None \<rparr>]),
       unicodedata = demo_ucd \<rparr>"

text \<open>
  A history with titles and artists beyond ASCII, \<^verbatim>\<open>CAF\<close> followed by U+00C9 (the capital E with
  an acute accent) by \<^verbatim>\<open>X\<close> and the Greek word U+039F U+0394 U+039F U+03A3 by the artist of the same
  name, and a metadata service that recommends both in small letters (the second with the
  final sigma U+03C2) and a third track that is new.
\<close>

definition latin_greek_history :: "song list" where
  "latin_greek_history =
     [Song_init 1 (Some [67, 65, 70, 201]) (Some (py_str ''X'')) (Some 100) None (py_str ''u1'') None,
      Song_init 2 (Some [927, 916, 927, 931]) (Some [927, 916, 927, 931]) (Some 100) None (py_str ''u2'') None]"

definition latin_greek_providers :: providers where
  "latin_greek_providers =
     demo_providers
       \<lparr> ytdl := False,
         spotify_recommendations := (\<lambda>track_id limit. Returned
          [\<lparr> track_name = [99, 97, 102, 233], track_artists = [py_str ''x''], duration_ms = 200000,
              album_images = [], external_url = py_str ''https://open.spotify.com/track/d'' \<rparr>,
           \<lparr> track_name = [959, 948, 959, 962], track_artists = [[927, 916, 927, 931], py_str ''B''],
              duration_ms = 200000,
              album_images = [], external_url = py_str ''https://open.spotify.com/track/e'' \<rparr>,
           \<lparr> track_name = [201, 931], track_artists = [[927, 916, 927, 931], py_str ''B''],
              duration_ms = 200000,
              album_images = [], external_url = py_str ''https://open.spotify.com/track/f'' \<rparr>]) \<rparr>"

definition latin_greek_world :: world where
  "latin_greek_world =
     (fresh_world 0)\<lparr> autoplay_enabled := True, last_played_songs := [demo_seed],
                       autoplay_history := latin_greek_history \<rparr>"

definition demo_autoplay_world :: world where
  "demo_autoplay_world =
     (fresh_world 0)\<lparr> autoplay_enabled := True, last_played_songs := [demo_seed],
                       autoplay_history := demo_history \<rparr>"







section \<open>The pending queue is first-in first-out\<close>

lemma run_ops_fifo:
  "returned (fst (run_ops ops mq)) @ queue (snd (run_ops ops mq)) = queue mq @ enqueued ops"
proof (induction ops arbitrary: mq)
  case Nil
  show ?case by simp
next
  case (Cons op ops)
  show ?case
  proof (cases op)
    case (Enqueue s now)
    with Cons.IH [of "add_song s now mq"] show ?thesis
      by (simp add: add_song_def)
  next
    case DequeueNext
    show ?thesis
    proof (cases "queue mq")
      case Nil
      with Cons.IH [of mq] DequeueNext show ?thesis
        by (simp add: get_next_song_def case_prod_beta)
    next
      case front: (Cons s rest)
      with Cons.IH [of "mq\<lparr>queue := rest\<rparr>"] DequeueNext show ?thesis
        by (simp add: get_next_song_def case_prod_beta)
    qed
  qed
qed

text \<open>
  C1. Whatever sequence of \<^verbatim>\<open>add_song\<close> and \<^verbatim>\<open>get_next_song\<close> calls is made on a queue,
  the songs handed out, followed by the songs still pending, are exactly the songs that were
  pending at the start followed by the songs enqueued, in the order of insertion: songs leave
  in FIFO order, and every song handed out stands for one enqueue of it. On a fresh queue
  the songs handed out are therefore a prefix of the enqueued ones. \<^verbatim>\<open>get_next_song\<close> on an
  empty queue returns \<^verbatim>\<open>None\<close> and on a non-empty queue its front.
\<close>

theorem get_next_song_fifo:
  "returned (fst (run_ops ops mq)) @ queue (snd (run_ops ops mq)) = queue mq @ enqueued ops
   \<and> returned (fst (run_ops ops (EnhancedMusicQueue_init t0)))
       = take (length (returned (fst (run_ops ops (EnhancedMusicQueue_init t0))))) (enqueued ops)
   \<and> fst (get_next_song (mq\<lparr>queue := []\<rparr>)) = None
   \<and> get_next_song (mq\<lparr>queue := s # rest\<rparr>) = (Some s, mq\<lparr>queue := rest\<rparr>)"
proof -
  let ?r = "returned (fst (run_ops ops (EnhancedMusicQueue_init t0)))"
  let ?q = "queue (snd (run_ops ops (EnhancedMusicQueue_init t0)))"
  have "?r @ ?q = enqueued ops"
    using run_ops_fifo [of ops "EnhancedMusicQueue_init t0"]
    by (simp add: EnhancedMusicQueue_init_def)
  then have "take (length ?r) (enqueued ops) = ?r"
    by (metis append_eq_conv_conj)
  then show ?thesis
    by (simp add: run_ops_fifo get_next_song_def)
qed


section \<open>The per-song retry cap\<close>

lemma play_next_song_idle:
  "current (pop_if_idle w) = None \<Longrightarrow>
     play_next_song ex w = emit [QueueFinished] ((pop_if_idle w)\<lparr>is_playing := False\<rparr>)"
  by (subst play_next_song.simps) simp

lemma play_next_song_loaded:
  "current (pop_if_idle w) = Some cur \<Longrightarrow> load_attempt ex w cur = (Returned src, w3) \<Longrightarrow>
     play_next_song ex w =
       (let w4 = w3\<lparr>current := Some (cur\<lparr>source := Some src\<rparr>)\<rparr> in
        case voice_client w4 of
          None \<Rightarrow> w4\<lparr>is_playing := False\<rparr>
        | Some vc \<Rightarrow> if \<not> is_connected vc then w4\<lparr>is_playing := False\<rparr>
                     else emit [NowPlaying (song_id cur)] w4)"
  by (subst play_next_song.simps) simp

lemma play_next_song_retry:
  "current (pop_if_idle w) = Some cur \<Longrightarrow> load_attempt ex w cur = (Raised e, w3) \<Longrightarrow>
   retry_count cur < max_retries cur \<Longrightarrow>
     play_next_song ex w =
       play_next_song ex
         (emit [Sleep 2] (w3\<lparr>current := Some (cur\<lparr>retry_count := retry_count cur + 1\<rparr>)\<rparr>))"
  by (subst play_next_song.simps) simp

lemma play_next_song_skip:
  "current (pop_if_idle w) = Some cur \<Longrightarrow> load_attempt ex w cur = (Raised e, w3) \<Longrightarrow>
   \<not> retry_count cur < max_retries cur \<Longrightarrow> queue w3 \<noteq> [] \<Longrightarrow>
     play_next_song ex w =
       play_next_song ex (emit [Sleep 2] ((emit [LoadFailed (song_id cur)] w3)\<lparr>current := None\<rparr>))"
  by (subst play_next_song.simps) (simp add: Let_def emit_def)

lemma play_next_song_last:
  "current (pop_if_idle w) = Some cur \<Longrightarrow> load_attempt ex w cur = (Raised e, w3) \<Longrightarrow>
   \<not> retry_count cur < max_retries cur \<Longrightarrow> queue w3 = [] \<Longrightarrow>
     play_next_song ex w = (emit [LoadFailed (song_id cur)] w3)\<lparr>current := None, is_playing := False\<rparr>"
  by (subst play_next_song.simps) (simp add: Let_def emit_def)

lemma play_next_song_paths [consumes 0, case_names idle loaded retry skip last]:
  assumes idle: "\<And>w. current (pop_if_idle w) = None \<Longrightarrow> P w"
    and loaded: "\<And>w cur src w3. current (pop_if_idle w) = Some cur \<Longrightarrow>
            load_attempt ex w cur = (Returned src, w3) \<Longrightarrow> P w"
    and retry: "\<And>w cur e w3. current (pop_if_idle w) = Some cur \<Longrightarrow>
            load_attempt ex w cur = (Raised e, w3) \<Longrightarrow> retry_count cur < max_retries cur \<Longrightarrow>
            P (emit [Sleep 2] (w3\<lparr>current := Some (cur\<lparr>retry_count := retry_count cur + 1\<rparr>)\<rparr>)) \<Longrightarrow> P w"
    and skip: "\<And>w cur e w3. current (pop_if_idle w) = Some cur \<Longrightarrow>
            load_attempt ex w cur = (Raised e, w3) \<Longrightarrow> \<not> retry_count cur < max_retries cur \<Longrightarrow>
            queue w3 \<noteq> [] \<Longrightarrow>
            P (emit [Sleep 2] ((emit [LoadFailed (song_id cur)] w3)\<lparr>current := None\<rparr>)) \<Longrightarrow> P w"
    and last: "\<And>w cur e w3. current (pop_if_idle w) = Some cur \<Longrightarrow>
            load_attempt ex w cur = (Raised e, w3) \<Longrightarrow> \<not> retry_count cur < max_retries cur \<Longrightarrow>
            queue w3 = [] \<Longrightarrow> P w"
  shows "P w"
proof -
  have "e = ex \<Longrightarrow> P w" for e
  proof (induction e w rule: play_next_song.induct)
    case (1 e w)
    note e = \<open>e = ex\<close>
    show ?case
    proof (cases "current (pop_if_idle w)")
      case None
      then show ?thesis by (rule idle)
    next
      case (Some cur)
      obtain r w3 where la: "load_attempt ex w cur = (r, w3)"
        by (cases "load_attempt ex w cur")
      have fu: "(r, w3) = load_attempt e w cur"
        using la e by simp
      show ?thesis
      proof (cases r)
        case (Returned src)
        with Some la show ?thesis by (auto intro: loaded)
      next
        case (Raised err)
        show ?thesis
        proof (cases "retry_count cur < max_retries cur")
          case True
          have "P (emit [Sleep 2] (w3\<lparr>current := Some (cur\<lparr>retry_count := retry_count cur + 1\<rparr>)\<rparr>))"
            by (rule "1.IH"(1) [OF Some fu Raised True e])
          then show ?thesis
            by (rule retry [OF Some la [unfolded Raised] True])
        next
          case False
          show ?thesis
          proof (cases "queue w3 = []")
            case True
            with Some la Raised False show ?thesis by (auto intro: last)
          next
            case ne: False
            have "P (emit [Sleep 2] ((emit [LoadFailed (song_id cur)] w3)\<lparr>current := None\<rparr>))"
              using "1.IH"(2) [OF Some fu Raised False refl _ e] ne
              by (simp add: emit_def)
            then show ?thesis
              by (rule skip [OF Some la [unfolded Raised] False ne])
          qed
        qed
      qed
    qed
  qed
  then show ?thesis by simp
qed

text \<open>What the \<^verbatim>\<open>try\<close> block does to the session.\<close>

lemma pop_if_idle_events [simp]: "events (pop_if_idle w) = events w"
  by (simp add: pop_if_idle_def get_next_song_def split: list.splits)



lemma load_attempt_events:
  "load_attempt ex w cur = (r, w3) \<Longrightarrow>
     \<exists>ds. events w3 = events w @ Load (song_id cur) # map Sleep ds"
  by (auto simp: load_attempt_def from_url_def emit_def split: prod.splits)

lemma never_reloaded_sleeps [simp]: "never_reloaded (map Sleep ds @ es) = never_reloaded es"
  by (induction ds) simp_all

lemma never_reloaded_only_sleeps [simp]: "never_reloaded (map Sleep ds)"
  by (induction ds) simp_all

lemma load_not_sleep [simp]: "Load i \<notin> set (map Sleep ds)"
  by auto

lemma new_events_append [simp]: "events w' = events w @ es \<Longrightarrow> new_events w w' = es"
  by (simp add: new_events_def)


lemma retry_ok_source [simp]: "retry_ok (s\<lparr>source := x\<rparr>) = retry_ok s"
  by (simp add: retry_ok_def)






section \<open>The volume command\<close>

text \<open>
  C8. With an active stream (a voice client, a current song and its source), a requested
  volume below 0 or above 200 is rejected and the session, with it the gain factor, is left
  as it was; a volume \<open>v\<close> from 0 to 200 is accepted and the gain factor becomes \<open>v / 100\<close>,
  nothing else changes. Volume 0 gives gain 0, volume 100 gives gain 1, and volume 250
  leaves the gain unchanged.
\<close>

theorem volume_range:
  assumes "voice_client mq = Some vc" and "current mq = Some cur" and "source cur = Some src"
  shows "(v < 0 \<or> 200 < v \<longrightarrow> volume_cmd (Some v) mq = (VolumeInvalid, mq))
       \<and> (0 \<le> v \<and> v \<le> 200 \<longrightarrow>
            fst (volume_cmd (Some v) mq) = VolumeChanged v (volume_status v)
            \<and> gain (snd (volume_cmd (Some v) mq)) = Some (real_of_int v / 100)
            \<and> snd (volume_cmd (Some v) mq)
                = mq\<lparr>current := Some (cur\<lparr>source := Some (src\<lparr>volume := real_of_int v / 100\<rparr>)\<rparr>)\<rparr>)
       \<and> gain (snd (volume_cmd (Some 0) mq)) = Some 0
       \<and> gain (snd (volume_cmd (Some 100) mq)) = Some 1
       \<and> gain (snd (volume_cmd (Some 250) mq)) = gain mq"
  using assms by (auto simp: volume_cmd_def gain_def max_def)

theorem volume_range_witness:
  "voice_client ((fresh_world 0)\<lparr>voice_client := Some \<lparr>is_connected = True, channel = 1\<rparr>,
        current := Some ((demo_song 1)\<lparr>source := Some \<lparr>volume = 1 / 2\<rparr>\<rparr>)\<rparr>)
     = Some \<lparr>is_connected = True, channel = 1\<rparr>
   \<and> (0::int) \<le> 150 \<and> (150::int) \<le> 200 \<and> (200::int) < 250
   \<and> gain (snd (volume_cmd (Some 150)
         ((fresh_world 0)\<lparr>voice_client := Some \<lparr>is_connected = True, channel = 1\<rparr>,
            current := Some ((demo_song 1)\<lparr>source := Some \<lparr>volume = 1 / 2\<rparr>\<rparr>)\<rparr>))) = Some (3 / 2)
   \<and> fst (volume_cmd (Some 250)
         ((fresh_world 0)\<lparr>voice_client := Some \<lparr>is_connected = True, channel = 1\<rparr>,
            current := Some ((demo_song 1)\<lparr>source := Some \<lparr>volume = 1 / 2\<rparr>\<rparr>)\<rparr>)) = VolumeInvalid
   \<and> gain (snd (volume_cmd (Some 250)
         ((fresh_world 0)\<lparr>voice_client := Some \<lparr>is_connected = True, channel = 1\<rparr>,
            current := Some ((demo_song 1)\<lparr>source := Some \<lparr>volume = 1 / 2\<rparr>\<rparr>)\<rparr>))) = Some (1 / 2)"
proof -
  let ?w = "(fresh_world 0)\<lparr>voice_client := Some \<lparr>is_connected = True, channel = 1\<rparr>,
        current := Some ((demo_song 1)\<lparr>source := Some \<lparr>volume = 1 / 2\<rparr>\<rparr>)\<rparr>"
  have h1: "voice_client ?w = Some \<lparr>is_connected = True, channel = 1\<rparr>"
    by (simp add: fresh_world_def)
  have h2: "current ?w = Some ((demo_song 1)\<lparr>source := Some \<lparr>volume = 1 / 2\<rparr>\<rparr>)"
    by (simp add: fresh_world_def)
  have h3: "source ((demo_song 1)\<lparr>source := Some \<lparr>volume = 1 / 2\<rparr>\<rparr>) = Some \<lparr>volume = 1 / 2\<rparr>"
    by simp
  have g: "gain ?w = Some (1 / 2)"
    by (simp add: gain_def fresh_world_def)
  have a: "gain (snd (volume_cmd (Some 150) ?w)) = Some (3 / 2)"
    using volume_range [OF h1 h2 h3, of 150] by (simp add: gain_def)
  have "volume_cmd (Some 250) ?w = (VolumeInvalid, ?w)"
    using volume_range [OF h1 h2 h3, of 250] by simp
  then have b: "fst (volume_cmd (Some 250) ?w) = VolumeInvalid"
    and c: "gain (snd (volume_cmd (Some 250) ?w)) = Some (1 / 2)"
    using g by simp_all
  show ?thesis
    using h1 a b c by simp
qed

section \<open>The retry wrapper reads its configuration only\<close>







section \<open>What refreshes the activity timestamp\<close>

lemma pop_if_idle_frame: "session_frame (pop_if_idle w) = session_frame w"
  by (simp add: pop_if_idle_def get_next_song_def session_frame_def split: list.splits)

lemma load_attempt_frame:
  "load_attempt ex w cur = (r, w3) \<Longrightarrow> session_frame w3 = session_frame w"
proof -
  assume "load_attempt ex w cur = (r, w3)"
  then have "session_frame w3 = session_frame (pop_if_idle w)"
    by (auto simp: load_attempt_def from_url_def emit_def session_frame_def split: prod.splits)
  then show ?thesis
    by (simp add: pop_if_idle_frame)
qed

lemma session_frame_emit [simp]: "session_frame (emit es w) = session_frame w"
  by (simp add: session_frame_def emit_def)

lemma play_next_song_frame: "session_frame (play_next_song ex w) = session_frame w"
proof (induction w rule: play_next_song_paths [of _ ex])
  case (idle w)
  then show ?case
    using pop_if_idle_frame [of w] by (simp add: play_next_song_idle session_frame_def emit_def)
next
  case (loaded w cur src w3)
  from load_attempt_frame [OF loaded(2)] show ?case
    by (simp add: play_next_song_loaded [OF loaded(1,2)] Let_def session_frame_def emit_def
          split: option.splits)
next
  case (retry w cur e w3)
  from load_attempt_frame [OF retry(2)] retry.IH show ?case
    by (simp add: play_next_song_retry [OF retry(1,2,3)] session_frame_def emit_def)
next
  case (skip w cur e w3)
  from load_attempt_frame [OF skip(2)] skip.IH show ?case
    by (simp add: play_next_song_skip [OF skip(1,2,3,4)] session_frame_def emit_def)
next
  case (last w cur e w3)
  from load_attempt_frame [OF last(2)] show ?case
    by (simp add: play_next_song_last [OF last(1,2,3,4)] session_frame_def emit_def)
qed

lemma try_connect_last_activity:
  "try_connect gw t i w = Inl w' \<or> try_connect gw t i w = Inr w' \<Longrightarrow> last_activity w' = last_activity w"
  by (auto simp: try_connect_def fresh_connect_def emit_def reset_connection_failures_def
        split: option.splits if_splits conn_outcome.splits)

lemma on_connect_error_last_activity [simp]:
  "last_activity (on_connect_error i w) = last_activity w"
  by (simp add: on_connect_error_def Let_def emit_def increment_connection_failures_def
        split: option.splits)

lemma connect_loop_last_activity:
  "last_activity (snd (connect_loop gw t as w)) = last_activity w"
proof (induction as arbitrary: w)
  case Nil
  show ?case by simp
next
  case (Cons i as)
  show ?case
  proof (cases "try_connect gw t i w")
    case (Inl w')
    with try_connect_last_activity [of gw t i w w'] Cons.IH [of "on_connect_error i w'"]
    show ?thesis by simp
  next
    case (Inr w')
    with try_connect_last_activity [of gw t i w w'] show ?thesis by simp
  qed
qed

lemma connect_last_activity:
  "last_activity (snd (connect_to_voice_channel gw t w)) = last_activity w"
  by (simp add: connect_to_voice_channel_def connect_loop_last_activity)

lemma volume_last_activity:
  "last_activity (snd (volume_cmd v mq)) = last_activity mq"
  by (simp add: volume_cmd_def split: option.splits)

text \<open>
  C10. \<^verbatim>\<open>add_song\<close> and \<^verbatim>\<open>clear_queue\<close> set \<^verbatim>\<open>last_activity\<close> to the current
  time. \<^verbatim>\<open>get_next_song\<close> changes the queue only, so the timestamp and the answer of
  \<^verbatim>\<open>is_inactive\<close> stay as they were; the completion callback and \<^verbatim>\<open>play_next_song\<close>
  do not touch the timestamp either, nor do \<^verbatim>\<open>connect_to_voice_channel\<close> and the
  \<^verbatim>\<open>volume\<close> command. So a session can count as inactive while it plays: two songs
  are enqueued at time 0, the first is played, and at time 901 the second is taken from the
  queue and started; at time 902 the session is playing, its timestamp is still 0,
  \<^verbatim>\<open>is_inactive(15)\<close> holds, and the sweeper tears the session down.
\<close>

theorem last_activity_refreshed_by_enqueue_and_clear_only:
  "last_activity (add_song s now mq) = now
   \<and> last_activity (clear_queue now mq) = now
   \<and> snd (get_next_song mq) = mq\<lparr>queue := tl (queue mq)\<rparr>
   \<and> last_activity (snd (get_next_song mq)) = last_activity mq
   \<and> is_inactive timeout_minutes t (snd (get_next_song mq)) = is_inactive timeout_minutes t mq
   \<and> last_activity (after_playing mq) = last_activity mq
   \<and> last_activity (play_next_song ex w) = last_activity w
   \<and> last_activity (snd (connect_to_voice_channel gw target w)) = last_activity w
   \<and> last_activity (snd (volume_cmd vol mq)) = last_activity mq
   \<and> is_playing busy_session
   \<and> current busy_session = Some ((demo_song 2)\<lparr>source := Some \<lparr>volume = 1 / 2\<rparr>\<rparr>)
   \<and> events busy_session = [Load 1, NowPlaying 1, Load 2, NowPlaying 2]
   \<and> last_activity busy_session = 0
   \<and> is_inactive 15 902 busy_session
   \<and> current (cleanup_session True 902 busy_session) = None
   \<and> voice_client (cleanup_session True 902 busy_session) = None"
proof -
  have a: "snd (get_next_song mq) = mq\<lparr>queue := tl (queue mq)\<rparr>"
    by (cases "queue mq") (simp_all add: get_next_song_def)
  have b: "last_activity (play_next_song ex w) = last_activity w"
    using play_next_song_frame [of ex w] by (simp add: session_frame_def)
  have c: "is_playing busy_session
   \<and> current busy_session = Some ((demo_song 2)\<lparr>source := Some \<lparr>volume = 1 / 2\<rparr>\<rparr>)
   \<and> events busy_session = [Load 1, NowPlaying 1, Load 2, NowPlaying 2]
   \<and> last_activity busy_session = 0
   \<and> is_inactive 15 902 busy_session
   \<and> current (cleanup_session True 902 busy_session) = None
   \<and> voice_client (cleanup_session True 902 busy_session) = None"
    by code_simp
  show ?thesis
    using b c
    by (simp add: a connect_last_activity volume_last_activity)
       (simp add: add_song_def clear_queue_def after_playing_def is_inactive_def split: option.splits)
qed


section \<open>The history rings stay within their capacity\<close>

lemma deque_append_length: "length (deque_append n xs x) \<le> n"
  by (simp add: deque_append_def)

lemma deque_append_full: "length xs = n \<Longrightarrow> 0 < n \<Longrightarrow> deque_append n xs x = tl xs @ [x]"
  by (cases xs) (simp_all add: deque_append_def)

lemma deque_append_drop:
  "deque_append n (drop (length L - n) L) y = drop (length (L @ [y]) - n) (L @ [y])"
proof (cases "length L \<le> n")
  case True
  then show ?thesis by (simp add: deque_append_def)
next
  case False
  then have "Suc (length L) - n = Suc (length L - n)" by simp
  with False show ?thesis
    by (simp add: deque_append_def min_def)
qed

lemma foldl_deque_append:
  "length xs \<le> n \<Longrightarrow>
     foldl (deque_append n) xs ys = drop (length (xs @ ys) - n) (xs @ ys)"
proof (induction ys rule: rev_induct)
  case Nil
  then show ?case by simp
next
  case (snoc y ys)
  have "foldl (deque_append n) xs (ys @ [y])
          = deque_append n (drop (length (xs @ ys) - n) (xs @ ys)) y"
    using snoc by simp
  also have "\<dots> = drop (length ((xs @ ys) @ [y]) - n) ((xs @ ys) @ [y])"
    by (rule deque_append_drop)
  finally show ?case by (simp only: append_assoc)
qed

lemma add_songs_rings [simp]:
  "last_played_songs (add_songs ss clock k w) = last_played_songs w"
  "autoplay_history (add_songs ss clock k w) = autoplay_history w"
  by (induction ss arbitrary: k w) (simp_all add: add_song_def)

lemma play_next_song_rings [simp]:
  "last_played_songs (play_next_song ex w) = last_played_songs w"
  "autoplay_history (play_next_song ex w) = autoplay_history w"
  using play_next_song_frame [of ex w] by (simp_all add: session_frame_def)

lemma recommendations_history:
  "autoplay_history (snd (get_autoplay_recommendations prov s m d w))
     = foldl (deque_append autoplay_history_maxlen) (autoplay_history w)
         (fst (get_autoplay_recommendations prov s m d w))"
  "last_played_songs (snd (get_autoplay_recommendations prov s m d w)) = last_played_songs w"
  by (simp_all add: get_autoplay_recommendations_def split: prod.splits)

lemma rings_ok_recommendations:
  "rings_ok w \<Longrightarrow> rings_ok (snd (get_autoplay_recommendations prov s m d w))"
  by (simp add: rings_ok_def recommendations_history foldl_deque_append)

lemma queue_drained_rings [simp]:
  "last_played_songs (queue_drained w) = last_played_songs w"
  "autoplay_history (queue_drained w) = autoplay_history w"
  by (simp_all add: queue_drained_def emit_def Let_def)

lemma rings_ok_cong:
  "last_played_songs w' = last_played_songs w \<Longrightarrow> autoplay_history w' = autoplay_history w \<Longrightarrow>
     rings_ok w' = rings_ok w"
  by (simp add: rings_ok_def)

lemma rings_ok_autoplay_attempt:
  assumes "rings_ok w"
  shows "rings_ok (autoplay_attempt ex prov clock w)"
proof -
  let ?w2 = "emit [Recommend (song_id (last (last_played_songs w)))] (w\<lparr>last_autoplay_attempt := clock 1\<rparr>)"
  obtain recs w3 where g: "get_autoplay_recommendations prov (last (last_played_songs w)) 3 300 ?w2 = (recs, w3)"
    by (cases "get_autoplay_recommendations prov (last (last_played_songs w)) 3 300 ?w2")
  have "rings_ok ?w2"
    using assms by (simp add: rings_ok_def emit_def)
  from rings_ok_recommendations [OF this, of prov "last (last_played_songs w)" 3 300]
  have r3: "rings_ok w3"
    using g by simp
  have eq: "autoplay_attempt ex prov clock w =
      (if recs \<noteq> [] then
         (let w6 = emit [AutoplayNotice (length recs)] (add_songs recs clock 2 (w3\<lparr>autoplay_failures := 0\<rparr>))
          in case get_next_song w6 of
               (nxt, w7) \<Rightarrow>
                 (case nxt of
                    Some s \<Rightarrow> play_next_song ex (w7\<lparr>current := nxt\<rparr>)
                  | None \<Rightarrow> queue_drained (w7\<lparr>current := nxt\<rparr>)))
       else queue_drained (w3\<lparr>autoplay_failures := autoplay_failures w3 + 1\<rparr>))"
    using g by (simp add: autoplay_attempt_def Let_def emit_def)
  show ?thesis
  proof (cases "recs = []")
    case True
    then show ?thesis
      using r3 by (simp add: eq rings_ok_def)
  next
    case False
    let ?w6 = "emit [AutoplayNotice (length recs)] (add_songs recs clock 2 (w3\<lparr>autoplay_failures := 0\<rparr>))"
    have r6: "rings_ok ?w6"
      using r3 by (simp add: rings_ok_def emit_def)
    then show ?thesis
      using False
      by (cases "queue ?w6") (simp_all add: eq Let_def get_next_song_def rings_ok_def)
  qed
qed

lemma rings_ok_play_next_in_queue:
  assumes "rings_ok w"
  shows "rings_ok (play_next_in_queue ex prov clock w)"
proof (cases "queue w")
  case Nil
  have "rings_ok (w\<lparr>current := None\<rparr>)"
    using assms by (simp add: rings_ok_def)
  from rings_ok_autoplay_attempt [OF this] this show ?thesis
    using Nil by (simp add: play_next_in_queue_def get_next_song_def Let_def rings_ok_def)
next
  case (Cons s rest)
  then show ?thesis
    using assms by (simp add: play_next_in_queue_def get_next_song_def Let_def rings_ok_def)
qed

text \<open>
  C6. \<^verbatim>\<open>last_played_songs\<close> holds at most 5 songs and \<^verbatim>\<open>autoplay_history\<close> at most 20:
  this holds for a new session and is kept by every operation of the queue, by the
  completion callback, by \<^verbatim>\<open>play_next_song\<close>, by the recommender and by
  \<^verbatim>\<open>play_next_in_queue\<close>. The callback leaves in \<^verbatim>\<open>last_played_songs\<close> the last 5 of
  the old entries followed by the finished song; when the ring was full this is the old ring
  without its oldest entry, followed by the new song. The recommender leaves in
  \<^verbatim>\<open>autoplay_history\<close> the last 20 of the old entries followed by the new songs, in
  order, and one append to a full ring drops the oldest entry.
\<close>

theorem history_rings_bounded:
  assumes "rings_ok w"
  shows "rings_ok (EnhancedMusicQueue_init t) \<and> rings_ok (fresh_world t)
       \<and> rings_ok (add_song s now w) \<and> rings_ok (snd (get_next_song w)) \<and> rings_ok (clear_queue now w)
       \<and> rings_ok (after_playing w)
       \<and> rings_ok (play_next_song ex w)
       \<and> rings_ok (snd (get_autoplay_recommendations prov seed max_songs max_duration w))
       \<and> rings_ok (play_next_in_queue ex prov clock w)
       \<and> (current w = Some c \<longrightarrow>
            last_played_songs (after_playing w)
              = drop (length (last_played_songs w @ [c]) - 5) (last_played_songs w @ [c]))
       \<and> (current w = Some c \<and> length (last_played_songs w) = 5 \<longrightarrow>
            last_played_songs (after_playing w) = tl (last_played_songs w) @ [c])
       \<and> autoplay_history (snd (get_autoplay_recommendations prov seed max_songs max_duration w))
           = drop (length (autoplay_history w
                           @ fst (get_autoplay_recommendations prov seed max_songs max_duration w)) - 20)
               (autoplay_history w @ fst (get_autoplay_recommendations prov seed max_songs max_duration w))
       \<and> (length (autoplay_history w) = 20 \<longrightarrow>
            deque_append autoplay_history_maxlen (autoplay_history w) c = tl (autoplay_history w) @ [c])"
proof -
  have 1: "rings_ok (EnhancedMusicQueue_init t) \<and> rings_ok (fresh_world t)"
    by (simp add: rings_ok_def EnhancedMusicQueue_init_def fresh_world_def)
  have 2: "rings_ok (add_song s now w) \<and> rings_ok (snd (get_next_song w)) \<and> rings_ok (clear_queue now w)"
    using assms by (simp add: rings_ok_def add_song_def get_next_song_def clear_queue_def split: list.splits)
  have 3: "rings_ok (after_playing w)"
    using assms by (simp add: rings_ok_def after_playing_def deque_append_length split: option.splits)
  have 4: "rings_ok (play_next_song ex w)"
    using assms by (simp add: rings_ok_def)
  have 5: "current w = Some c \<longrightarrow>
            last_played_songs (after_playing w)
              = drop (length (last_played_songs w @ [c]) - 5) (last_played_songs w @ [c])"
    by (simp add: after_playing_def deque_append_def last_played_maxlen_def)
  have 6: "current w = Some c \<and> length (last_played_songs w) = 5 \<longrightarrow>
            last_played_songs (after_playing w) = tl (last_played_songs w) @ [c]"
    by (simp add: after_playing_def deque_append_full last_played_maxlen_def)
  have 7: "autoplay_history (snd (get_autoplay_recommendations prov seed max_songs max_duration w))
           = drop (length (autoplay_history w
                           @ fst (get_autoplay_recommendations prov seed max_songs max_duration w)) - 20)
               (autoplay_history w @ fst (get_autoplay_recommendations prov seed max_songs max_duration w))"
    using assms foldl_deque_append [of "autoplay_history w" autoplay_history_maxlen]
    by (simp add: recommendations_history rings_ok_def autoplay_history_maxlen_def)
  have 8: "length (autoplay_history w) = 20 \<longrightarrow>
            deque_append autoplay_history_maxlen (autoplay_history w) c = tl (autoplay_history w) @ [c]"
    by (simp add: deque_append_full autoplay_history_maxlen_def)
  show ?thesis
    using 1 2 3 4 5 6 7 8 rings_ok_recommendations [OF assms] rings_ok_play_next_in_queue [OF assms]
    by blast
qed

theorem history_rings_bounded_witness:
  "rings_ok ((fresh_world 0)\<lparr>current := Some (demo_song 7),
                last_played_songs := map demo_song [1, 2, 3, 4, 5],
                autoplay_history := map demo_song [10 ..< 30]\<rparr>)
   \<and> length (map demo_song [1, 2, 3, 4, 5]) = 5
   \<and> length (map demo_song [10 ..< 30]) = 20
   \<and> rings_ok (after_playing ((fresh_world 0)\<lparr>current := Some (demo_song 7),
                last_played_songs := map demo_song [1, 2, 3, 4, 5],
                autoplay_history := map demo_song [10 ..< 30]\<rparr>))
   \<and> last_played_songs (after_playing ((fresh_world 0)\<lparr>current := Some (demo_song 7),
                last_played_songs := map demo_song [1, 2, 3, 4, 5],
                autoplay_history := map demo_song [10 ..< 30]\<rparr>))
       = map demo_song [2, 3, 4, 5, 7]
   \<and> deque_append autoplay_history_maxlen (map demo_song [10 ..< 30]) (demo_song 7)
       = map demo_song ([11 ..< 30] @ [7])"
proof -
  let ?w = "(fresh_world 0)\<lparr>current := Some (demo_song 7),
                last_played_songs := map demo_song [1, 2, 3, 4, 5],
                autoplay_history := map demo_song [10 ..< 30]\<rparr>"
  have h: "rings_ok ?w"
    by (simp add: rings_ok_def last_played_maxlen_def autoplay_history_maxlen_def)
  have c: "current ?w = Some (demo_song 7)"
    and l: "last_played_songs ?w = map demo_song [1, 2, 3, 4, 5]"
    and a: "autoplay_history ?w = map demo_song [10 ..< 30]"
    by simp_all
  have t: "tl (map demo_song [10 ..< 30]) = map demo_song [11 ..< 30]"
    by (simp add: upt_rec)
  from history_rings_bounded [OF h, of 0 "demo_song 7" 0 always_failing no_providers "demo_song 7" 3 300
         "\<lambda>k. 0" "demo_song 7"]
  show ?thesis
    using h unfolding c l a by (simp add: t)
qed

section \<open>Bounded connection attempts with exponential backoff\<close>

lemma try_connect_raises:
  assumes "try_connect gw t i w = Inl w'"
  shows "gw i \<noteq> Established \<and> connection_failures w' = connection_failures w
       \<and> (\<exists>pre a. events w' = events w @ pre @ [a] \<and> is_connect_attempt a \<and> sleeps pre = []
                   \<and> filter is_connect_attempt pre = [])"
proof -
  have f: "fresh_connect gw t i v = Inl w' \<Longrightarrow>
             gw i \<noteq> Established \<and> connection_failures w' = connection_failures v
             \<and> events w' = events v @ [Connect t]" for v
    by (auto simp: fresh_connect_def emit_def split: conn_outcome.splits)
  show ?thesis
  proof (cases "voice_client w")
    case None
    with assms f [of w] show ?thesis
      by (auto simp: try_connect_def intro: exI [of _ "[]"])
  next
    case (Some vc)
    show ?thesis
    proof (cases "is_connected vc")
      case True
      with assms Some show ?thesis
        by (auto simp: try_connect_def emit_def split: if_splits conn_outcome.splits
              intro!: exI [of _ "[]"])
    next
      case False
      with assms Some f [of "(emit [Disconnect] w)\<lparr>voice_client := None\<rparr>"] show ?thesis
        by (auto simp: try_connect_def emit_def intro!: exI [of _ "[Disconnect]"])
    qed
  qed
qed

lemma try_connect_returns:
  assumes "try_connect gw t i w = Inr w'"
  shows "\<exists>tr. events w' = events w @ tr \<and> length (filter is_connect_attempt tr) \<le> 1 \<and> sleeps tr = []"
proof -
  have f: "fresh_connect gw t i v = Inr w' \<Longrightarrow> events w' = events v @ [Connect t]" for v
    by (auto simp: fresh_connect_def emit_def reset_connection_failures_def split: conn_outcome.splits)
  show ?thesis
  proof (cases "voice_client w")
    case None
    with assms f [of w] show ?thesis
      by (auto simp: try_connect_def)
  next
    case (Some vc)
    show ?thesis
    proof (cases "is_connected vc")
      case True
      with assms Some show ?thesis
        by (auto simp: try_connect_def emit_def reset_connection_failures_def
              split: if_splits conn_outcome.splits)
    next
      case False
      with assms Some f [of "(emit [Disconnect] w)\<lparr>voice_client := None\<rparr>"] show ?thesis
        by (auto simp: try_connect_def emit_def)
    qed
  qed
qed

lemma try_connect_must_call:
  "\<not> already_connected t w \<Longrightarrow> gw i \<noteq> Established \<Longrightarrow> \<exists>w'. try_connect gw t i w = Inl w'"
  by (cases "gw i")
     (auto simp: already_connected_def try_connect_def fresh_connect_def split: option.splits)

lemma on_connect_error_effect:
  "voice_client (on_connect_error i w) = None
   \<and> connection_failures (on_connect_error i w) = connection_failures w + 1
   \<and> (\<exists>post. events (on_connect_error i w)
                 = events w @ post @ (if int i < max_attempts_connect - 1 then [Sleep (2 ^ i)] else [])
              \<and> filter is_connect_attempt post = [] \<and> sleeps post = [])"
  by (cases "voice_client w")
     (auto simp: on_connect_error_def increment_connection_failures_def emit_def Let_def
        intro: exI [of _ "[Disconnect]"])

lemma sleeps_append [simp]: "sleeps (xs @ ys) = sleeps xs @ sleeps ys"
  by (induction xs rule: sleeps.induct) simp_all

lemma connect_loop_attempts:
  "\<exists>tr. events (snd (connect_loop gw t as w)) = events w @ tr
      \<and> length (filter is_connect_attempt tr) \<le> length as"
proof (induction as arbitrary: w)
  case Nil
  show ?case by simp
next
  case (Cons i as)
  show ?case
  proof (cases "try_connect gw t i w")
    case (Inr w')
    from try_connect_returns [OF this] show ?thesis
      using Inr by auto
  next
    case (Inl w')
    from try_connect_raises [OF this] obtain pre a where
      e1: "events w' = events w @ pre @ [a]" "is_connect_attempt a" "filter is_connect_attempt pre = []"
      by blast
    from on_connect_error_effect [of i w'] obtain post where
      e2: "events (on_connect_error i w')
             = events w' @ post @ (if int i < max_attempts_connect - 1 then [Sleep (2 ^ i)] else [])"
          "filter is_connect_attempt post = []"
      by blast
    from Cons.IH [of "on_connect_error i w'"] obtain tr where
      e3: "events (snd (connect_loop gw t as (on_connect_error i w'))) = events (on_connect_error i w') @ tr"
          "length (filter is_connect_attempt tr) \<le> length as"
      by blast
    show ?thesis
      using Inl e1 e2 e3 by simp
  qed
qed

lemma connect_step_disconnected:
  assumes "voice_client v = None" and "gw i \<noteq> Established"
  shows "connect_loop gw t (i # rest) v = connect_loop gw t rest (on_connect_error i (emit [Connect t] v))"
  using assms
  by (cases "gw i") (simp_all add: try_connect_def fresh_connect_def)

lemma on_connect_error_disconnected:
  assumes "voice_client v = None"
  shows "voice_client (on_connect_error i v) = None"
    and "connection_failures (on_connect_error i v) = connection_failures v + 1"
    and "events (on_connect_error i v)
           = events v @ (if int i < max_attempts_connect - 1 then [Sleep (2 ^ i)] else [])"
  using assms
  by (simp_all add: on_connect_error_def emit_def increment_connection_failures_def Let_def)

lemma emit_fields [simp]:
  "voice_client (emit es w) = voice_client w"
  "connection_failures (emit es w) = connection_failures w"
  "events (emit es w) = events w @ es"
  by (simp_all add: emit_def)

text \<open>
  C3. A call of \<^verbatim>\<open>connect_to_voice_channel\<close> makes at most 3 gateway calls. When attempt
  \<open>i\<close> raises, the handler leaves no voice client, has counted one more failure, and has
  slept \<open>2 ^ i\<close> seconds, as its last action, exactly when \<open>i\<close> is not the last attempt. When
  the session is not already connected to the target and all three gateway calls fail, the
  call returns \<^verbatim>\<open>False\<close> with three more failures counted and no voice client; it
  slept 1 second and then 2 seconds, each followed by a new connect, and nothing follows the
  third connect.
\<close>

theorem connect_backoff:
  "length (filter is_connect_attempt (new_events w (snd (connect_to_voice_channel gw t w)))) \<le> 3
   \<and> (\<forall>i w1. try_connect gw t i w = Inl w1 \<longrightarrow>
          voice_client (on_connect_error i w1) = None
          \<and> connection_failures (on_connect_error i w1) = connection_failures w + 1
          \<and> sleeps (new_events w1 (on_connect_error i w1))
              = (if int i < max_attempts_connect - 1 then [2 ^ i] else [])
          \<and> (int i < max_attempts_connect - 1 \<longrightarrow> last (events (on_connect_error i w1)) = Sleep (2 ^ i)))
   \<and> (\<not> already_connected t w \<and> gw 0 \<noteq> Established \<and> gw 1 \<noteq> Established \<and> gw 2 \<noteq> Established \<longrightarrow>
        fst (connect_to_voice_channel gw t w) = False
        \<and> voice_client (snd (connect_to_voice_channel gw t w)) = None
        \<and> connection_failures (snd (connect_to_voice_channel gw t w)) = connection_failures w + 3
        \<and> sleeps (new_events w (snd (connect_to_voice_channel gw t w))) = [1, 2]
        \<and> (\<exists>pre. new_events w (snd (connect_to_voice_channel gw t w))
                    = pre @ [Sleep 1, Connect t, Sleep 2, Connect t]
                  \<and> sleeps pre = [] \<and> length (filter is_connect_attempt pre) = 1))"
proof -
  have range: "[0 ..< nat max_attempts_connect] = [0, 1, 2]"
    by (simp add: max_attempts_connect_def upt_rec)
  have A: "length (filter is_connect_attempt (new_events w (snd (connect_to_voice_channel gw t w)))) \<le> 3"
    using connect_loop_attempts [of gw t "[0, 1, 2]" w]
    by (auto simp: connect_to_voice_channel_def range new_events_def)
  have B: "voice_client (on_connect_error i w1) = None
          \<and> connection_failures (on_connect_error i w1) = connection_failures w + 1
          \<and> sleeps (new_events w1 (on_connect_error i w1))
              = (if int i < max_attempts_connect - 1 then [2 ^ i] else [])
          \<and> (int i < max_attempts_connect - 1 \<longrightarrow> last (events (on_connect_error i w1)) = Sleep (2 ^ i))"
    if "try_connect gw t i w = Inl w1" for i w1
    using try_connect_raises [OF that] on_connect_error_effect [of i w1]
    by (auto simp: new_events_def)
  have C: "fst (connect_to_voice_channel gw t w) = False
        \<and> voice_client (snd (connect_to_voice_channel gw t w)) = None
        \<and> connection_failures (snd (connect_to_voice_channel gw t w)) = connection_failures w + 3
        \<and> sleeps (new_events w (snd (connect_to_voice_channel gw t w))) = [1, 2]
        \<and> (\<exists>pre. new_events w (snd (connect_to_voice_channel gw t w))
                    = pre @ [Sleep 1, Connect t, Sleep 2, Connect t]
                  \<and> sleeps pre = [] \<and> length (filter is_connect_attempt pre) = 1)"
    if n: "\<not> already_connected t w" and g: "gw 0 \<noteq> Established" "gw 1 \<noteq> Established" "gw 2 \<noteq> Established"
  proof -
    from try_connect_must_call [of t w gw 0, OF n g(1)] obtain w0 where t0: "try_connect gw t 0 w = Inl w0"
      by blast
    from try_connect_raises [OF t0] obtain pre a where
      e0: "events w0 = events w @ pre @ [a]" "is_connect_attempt a" "sleeps pre = []"
          "filter is_connect_attempt pre = []" "connection_failures w0 = connection_failures w"
      by blast
    let ?v = "on_connect_error 0 w0"
    from on_connect_error_effect [of 0 w0] obtain post where
      e1: "voice_client ?v = None" "connection_failures ?v = connection_failures w + 1"
          "events ?v = events w @ pre @ [a] @ post @ [Sleep 1]"
          "filter is_connect_attempt post = []" "sleeps post = []"
      using e0 by (auto simp: max_attempts_connect_def)
    have sa: "sleeps (a # es) = sleeps es" for es
      using e0(2) by (cases a) simp_all
    let ?v1 = "on_connect_error 1 (emit [Connect t] ?v)"
    let ?v2 = "on_connect_error 2 (emit [Connect t] ?v1)"
    have v1: "voice_client ?v1 = None" "connection_failures ?v1 = connection_failures w + 2"
      "events ?v1 = events ?v @ [Connect t, Sleep 2]"
      using e1(1,2) by (simp_all add: on_connect_error_disconnected max_attempts_connect_def)
    have s0: "connect_loop gw t [0, 1, 2] w = connect_loop gw t [1, 2] ?v"
      using t0 by simp
    have s1: "connect_loop gw t [1, 2] ?v = connect_loop gw t [2] ?v1"
      using e1(1) g(2) by (rule connect_step_disconnected)
    have s2: "connect_loop gw t [2] ?v1 = connect_loop gw t [] ?v2"
      using v1(1) g(3) by (rule connect_step_disconnected)
    have run: "connect_to_voice_channel gw t w = (False, ?v2)"
      unfolding connect_to_voice_channel_def range s0 s1 s2 by simp
    have v2: "voice_client ?v2 = None" "connection_failures ?v2 = connection_failures w + 3"
      "events ?v2 = events ?v1 @ [Connect t]"
      using v1(1,2) by (simp_all add: on_connect_error_disconnected max_attempts_connect_def)
    define p where "p = pre @ [a] @ post"
    have ev: "new_events w ?v2 = p @ [Sleep 1, Connect t, Sleep 2, Connect t]"
      unfolding new_events_def v2(3) v1(3) e1(3) p_def by simp
    have p: "sleeps p = []" "length (filter is_connect_attempt p) = 1"
      using e0 e1 sa by (simp_all add: p_def)
    have "sleeps (new_events w ?v2) = [1, 2]"
      unfolding ev using p(1) by simp
    then show ?thesis
      unfolding run using v2(1,2) ev p by auto
  qed
  show ?thesis
    using A B C by blast
qed

theorem connect_backoff_witness:
  "\<not> already_connected 5 (fresh_world 0)
   \<and> never_established 0 \<noteq> Established \<and> never_established 1 \<noteq> Established
   \<and> never_established 2 \<noteq> Established
   \<and> try_connect never_established 5 0 (fresh_world 0) = Inl (emit [Connect 5] (fresh_world 0))
   \<and> sleeps (new_events (emit [Connect 5] (fresh_world 0))
                (on_connect_error 0 (emit [Connect 5] (fresh_world 0)))) = [1]
   \<and> fst (connect_to_voice_channel never_established 5 (fresh_world 0)) = False
   \<and> connection_failures (snd (connect_to_voice_channel never_established 5 (fresh_world 0))) = 3
   \<and> sleeps (new_events (fresh_world 0) (snd (connect_to_voice_channel never_established 5 (fresh_world 0))))
       = [1, 2]
   \<and> events (snd (connect_to_voice_channel never_established 5 (fresh_world 0)))
       = [Connect 5, Sleep 1, Connect 5, Sleep 2, Connect 5]
   \<and> events (snd (connect_to_voice_channel never_established 5
                     ((fresh_world 0)\<lparr>voice_client := Some \<lparr>is_connected = True, channel = 4\<rparr>\<rparr>)))
       = [MoveTo 5, Disconnect, Sleep 1, Connect 5, Sleep 2, Connect 5]"
proof -
  have h: "\<not> already_connected 5 (fresh_world 0)"
    "never_established 0 \<noteq> Established" "never_established 1 \<noteq> Established"
    "never_established 2 \<noteq> Established"
    by (simp_all add: already_connected_def fresh_world_def never_established_def)
  have t: "try_connect never_established 5 0 (fresh_world 0) = Inl (emit [Connect 5] (fresh_world 0))"
    by (simp add: try_connect_def fresh_connect_def never_established_def fresh_world_def)
  have c: "connection_failures (fresh_world 0) = 0"
    by (simp add: fresh_world_def)
  have e1: "events (snd (connect_to_voice_channel never_established 5 (fresh_world 0)))
       = [Connect 5, Sleep 1, Connect 5, Sleep 2, Connect 5]"
    by code_simp
  have e2: "events (snd (connect_to_voice_channel never_established 5
                     ((fresh_world 0)\<lparr>voice_client := Some \<lparr>is_connected = True, channel = 4\<rparr>\<rparr>)))
       = [MoveTo 5, Disconnect, Sleep 1, Connect 5, Sleep 2, Connect 5]"
    by code_simp
  from connect_backoff [of "fresh_world 0" never_established 5] h t c
  have "sleeps (new_events (emit [Connect 5] (fresh_world 0))
                (on_connect_error 0 (emit [Connect 5] (fresh_world 0)))) = [1]
   \<and> fst (connect_to_voice_channel never_established 5 (fresh_world 0)) = False
   \<and> connection_failures (snd (connect_to_voice_channel never_established 5 (fresh_world 0))) = 3
   \<and> sleeps (new_events (fresh_world 0) (snd (connect_to_voice_channel never_established 5 (fresh_world 0))))
       = [1, 2]"
    by (simp add: max_attempts_connect_def)
  then show ?thesis
    using h t e1 e2 by simp
qed


section \<open>What the recommender returns\<close>

lemma str_in_refl [simp]: "str_in a a"
  by (simp add: str_in_def)

lemma str_in_Nil [simp]: "str_in [] a"
  by (simp add: str_in_def)

lemma str_in_prefix [simp]: "str_in a (a @ b)"
  by (simp add: str_in_def)

lemma str_lower_Nil [simp]: "str_lower u [] = []"
  by (simp add: str_lower_def)

text \<open>
  A code point that is neither cased nor case-ignorable shields a sigma before it from what
  follows: the text after such a code point has no influence on the lower-case form of the
  text before it.
\<close>

lemma handle_capital_sigma_append:
  assumes "\<not> is_case_ignorable u x" and "\<not> is_cased u x"
  shows "handle_capital_sigma u seen (cs @ x # xs) = handle_capital_sigma u seen (cs @ [x])"
proof (cases "\<forall>y \<in> set cs. is_case_ignorable u y")
  case True
  then have "dropWhile (is_case_ignorable u) (cs @ x # xs) = x # xs"
      and "dropWhile (is_case_ignorable u) (cs @ [x]) = [x]"
    using assms(1) by (simp_all add: dropWhile_append)
  then show ?thesis
    by (simp add: handle_capital_sigma_def)
next
  case False
  then obtain y ys where d: "dropWhile (is_case_ignorable u) cs = y # ys"
    by (cases "dropWhile (is_case_ignorable u) cs") auto
  from False have "dropWhile (is_case_ignorable u) (cs @ x # xs) = dropWhile (is_case_ignorable u) cs @ x # xs"
      and "dropWhile (is_case_ignorable u) (cs @ [x]) = dropWhile (is_case_ignorable u) cs @ [x]"
    by (auto simp: dropWhile_append)
  with d show ?thesis
    by (simp add: handle_capital_sigma_def)
qed

lemma handle_capital_sigma_end:
  assumes "\<not> is_case_ignorable u x" and "\<not> is_cased u x"
  shows "handle_capital_sigma u seen (cs @ [x]) = handle_capital_sigma u seen cs"
proof (cases "\<forall>y \<in> set cs. is_case_ignorable u y")
  case True
  then have "dropWhile (is_case_ignorable u) (cs @ [x]) = [x]"
      and "dropWhile (is_case_ignorable u) cs = []"
    using assms(1) by (simp_all add: dropWhile_append)
  then show ?thesis
    using assms(2) by (simp only: handle_capital_sigma_def list.case) simp
next
  case False
  then obtain y ys where d: "dropWhile (is_case_ignorable u) cs = y # ys"
    by (cases "dropWhile (is_case_ignorable u) cs") auto
  from False have "dropWhile (is_case_ignorable u) (cs @ [x]) = dropWhile (is_case_ignorable u) cs @ [x]"
    by (auto simp: dropWhile_append)
  with d show ?thesis
    by (simp add: handle_capital_sigma_def)
qed

lemma do_lower_append:
  assumes "\<not> is_case_ignorable u x" and "\<not> is_cased u x"
  shows "do_lower u seen (a @ x # xs) = do_lower u seen a @ do_lower u (rev a @ seen) (x # xs)"
proof (induction a arbitrary: seen)
  case Nil
  show ?case by simp
next
  case (Cons c cs)
  have "handle_capital_sigma u seen (cs @ x # xs) = handle_capital_sigma u seen cs"
    using handle_capital_sigma_append [OF assms] handle_capital_sigma_end [OF assms] by simp
  then show ?case
    using Cons.IH [of "c # seen"] by (simp add: lower_ucs4_def)
qed

lemma comma_not_cased: "\<not> is_case_ignorable u 44" "\<not> is_cased u 44"
  by (simp_all add: is_case_ignorable_def is_cased_def)

lemma str_lower_first_artist:
  "str_in (str_lower u a0) (str_lower u (str_join (py_str '', '') (a0 # others)))"
proof (cases others)
  case Nil
  then show ?thesis by simp
next
  case (Cons b bs)
  have "str_join (py_str '', '') (a0 # others) = a0 @ 44 # 32 # str_join (py_str '', '') (b # bs)"
    using Cons by (simp add: py_str_def)
  then have "str_lower u (str_join (py_str '', '') (a0 # others))
      = str_lower u a0 @ do_lower u (rev a0) (44 # 32 # str_join (py_str '', '') (b # bs))"
    using do_lower_append [OF comma_not_cased, of u "[]" a0] by (simp add: str_lower_def)
  then show ?thesis
    by simp
qed

lemma spotify_song_acceptable:
  assumes nd: "\<not> spotify_is_duplicate u hist (str_lower u name) (str_lower u a0)"
    and d: "d \<le> max_duration"
  shows "acceptable u hist max_duration
           (Song_init nid (Some name) (Some (str_join (py_str '', '') (a0 # others))) (Some d) th url sp)"
proof -
  let ?j = "str_join (py_str '', '') (a0 # others)"
  let ?s = "Song_init nid (Some name) (Some ?j) (Some d) th url sp"
  have "\<not> same_title_artist u ?s h" if h: "h \<in> set hist" for h
  proof
    assume same: "same_title_artist u ?s h"
    have t: "str_in (str_lower u name) (str_lower u (title h))"
    proof (cases "name = []")
      case True
      then show ?thesis by simp
    next
      case False
      then have "title ?s = name" by (simp add: Song_init_def str_or_def)
      with same show ?thesis by (simp add: same_title_artist_def)
    qed
    have a: "str_in (str_lower u a0) (str_lower u (artist h))"
    proof (cases "?j = []")
      case True
      then have "a0 = []" by (cases others) simp_all
      then show ?thesis by simp
    next
      case False
      then have "artist ?s = ?j" by (simp add: Song_init_def str_or_def)
      with same have "str_lower u (artist h) = str_lower u ?j"
        by (simp add: same_title_artist_def)
      then show ?thesis
        using str_lower_first_artist [of u a0 others] by simp
    qed
    from nd h t a show False
      by (auto simp: spotify_is_duplicate_def list_ex_iff)
  qed
  then show ?thesis
    using d by (auto simp: acceptable_def list_ex_iff Song_init_def)
qed

lemma youtube_song_acceptable:
  assumes nd: "\<not> youtube_is_duplicate u hist last_song ttl url"
    and d: "\<not> (dur \<noteq> 0 \<and> dur > max_duration)" and m: "0 \<le> max_duration"
  shows "acceptable u hist max_duration (Song_init nid (Some ttl) (Some art) (Some dur) th url sp)"
proof -
  let ?s = "Song_init nid (Some ttl) (Some art) (Some dur) th url sp"
  have "\<not> same_title_artist u ?s h" if h: "h \<in> set hist" for h
  proof
    assume same: "same_title_artist u ?s h"
    from nd h have n: "\<not> str_in (str_lower u ttl) (str_lower u (title h))"
      by (auto simp: youtube_is_duplicate_def list_ex_iff)
    then have "ttl \<noteq> []" by auto
    then have "title ?s = ttl" by (simp add: Song_init_def str_or_def)
    with same n show False by (simp add: same_title_artist_def)
  qed
  moreover have "dur \<le> max_duration"
    using d m by auto
  ultimately show ?thesis
    by (auto simp: acceptable_def list_ex_iff Song_init_def)
qed

lemma recs_ok_snoc:
  "recs_ok u ms hist md recs \<Longrightarrow> \<not> ms \<le> int (length recs) \<Longrightarrow> acceptable u hist md r \<Longrightarrow>
     recs_ok u ms hist md (recs @ [r])"
  by (auto simp: recs_ok_def)

lemma spotify_loop_recs_ok:
  "recs_ok (unicodedata prov) ms hist md recs \<Longrightarrow> recs_ok (unicodedata prov) ms hist md (fst (spotify_loop prov hist ms md i tracks (recs, nid)))"
proof (induction tracks arbitrary: i recs nid)
  case Nil
  then show ?case by simp
next
  case (Cons track tracks)
  show ?case
  proof (cases "ms \<le> int (length recs)")
    case True
    with Cons.prems show ?thesis by simp
  next
    case False
    note room = this
    show ?thesis
    proof (cases "duration_ms track div 1000 > md")
      case True
      with room Cons show ?thesis by (simp add: Let_def)
    next
      case short: False
      show ?thesis
      proof (cases "track_artists track")
        case Nil
        with room short Cons.prems show ?thesis by (simp add: Let_def)
      next
        case artists: (Cons a0 others)
        show ?thesis
        proof (cases "spotify_is_duplicate (unicodedata prov) hist (str_lower (unicodedata prov) (track_name track)) (str_lower (unicodedata prov) a0)")
          case True
          with room short artists Cons.IH Cons.prems show ?thesis by (simp add: Let_def)
        next
          case nodup: False
          have acc: "acceptable (unicodedata prov) hist md
             (Song_init nid (Some (track_name track)) (Some (str_join (py_str '', '') (a0 # others)))
                (Some (duration_ms track div 1000)) th url sp)" for th url sp
            using nodup short by (intro spotify_song_acceptable) simp_all
          show ?thesis
            using room short artists nodup Cons.prems Cons.IH recs_ok_snoc [OF Cons.prems room acc]
            by (simp add: Let_def split: outcome.splits option.splits)
        qed
      qed
    qed
  qed
qed

lemma spotify_strategy_recs_ok:
  "recs_ok (unicodedata prov) ms hist md (fst acc) \<Longrightarrow> recs_ok (unicodedata prov) ms hist md (fst (spotify_strategy prov seed hist ms md acc))"
  by (cases acc)
     (auto simp: spotify_strategy_def Let_def spotify_loop_recs_ok split: option.splits outcome.splits)

lemma youtube_results_loop_recs_ok:
  "recs_ok u ms hist md recs \<Longrightarrow> 0 \<le> md \<Longrightarrow>
     recs_ok u ms hist md (fst (youtube_results_loop u hist seed ms md results (recs, nid)))"
proof (induction results arbitrary: recs nid)
  case Nil
  then show ?case by simp
next
  case (Cons result results)
  show ?case
  proof (cases "ms \<le> int (length recs)")
    case True
    with Cons.prems show ?thesis by simp
  next
    case room: False
    let ?ttl = "case yt_title result of None \<Rightarrow> py_str ''Unknown Title'' | Some t \<Rightarrow> t"
    let ?art = "case uploader result of None \<Rightarrow> py_str ''Unknown Artist'' | Some a \<Rightarrow> a"
    let ?url = "case webpage_url result of None \<Rightarrow> [] | Some u \<Rightarrow> u"
    let ?dur = "case yt_duration result of None \<Rightarrow> 0 | Some d \<Rightarrow> d"
    show ?thesis
    proof (cases "\<not> (?dur \<noteq> 0 \<and> ?dur > md) \<and> \<not> youtube_is_duplicate u hist seed ?ttl ?url \<and> ?url \<noteq> []")
      case True
      then have "acceptable u hist md (Song_init nid (Some ?ttl) (Some ?art) (Some ?dur) (yt_thumbnail result) ?url None)"
        using Cons.prems(2) by (intro youtube_song_acceptable [of u hist seed]) auto
      from recs_ok_snoc [OF Cons.prems(1) room this] True room show ?thesis
        using Cons.IH Cons.prems(2) by (auto simp: Let_def)
    next
      case False
      with room Cons.IH [OF Cons.prems] show ?thesis
        by (auto simp: Let_def)
    qed
  qed
qed

lemma youtube_queries_loop_recs_ok:
  "recs_ok (unicodedata prov) ms hist md (fst acc) \<Longrightarrow> 0 \<le> md \<Longrightarrow>
     recs_ok (unicodedata prov) ms hist md (fst (youtube_queries_loop prov hist seed ms md i queries acc))"
proof (induction queries arbitrary: i acc)
  case Nil
  then show ?case by (cases acc) simp
next
  case (Cons query queries)
  obtain recs nid where acc: "acc = (recs, nid)" by (cases acc)
  show ?case
  proof (cases "ms \<le> int (length recs)")
    case True
    with Cons.prems acc show ?thesis by simp
  next
    case room: False
    show ?thesis
    proof (cases "youtube_search_multiple prov i query (ms - int (length recs))")
      case (Raised e)
      with room acc Cons.IH [OF Cons.prems] show ?thesis by simp
    next
      case (Returned results)
      have "recs_ok (unicodedata prov) ms hist md (fst (youtube_results_loop (unicodedata prov) hist seed ms md results (recs, nid)))"
        using Cons.prems acc by (intro youtube_results_loop_recs_ok) simp_all
      from Cons.IH [OF this Cons.prems(2)] room acc Returned show ?thesis by simp
    qed
  qed
qed

lemma youtube_strategy_recs_ok:
  "recs_ok (unicodedata prov) ms hist md (fst acc) \<Longrightarrow> 0 \<le> md \<Longrightarrow>
     recs_ok (unicodedata prov) ms hist md (fst (youtube_strategy prov seed hist ms md acc))"
  by (simp add: youtube_strategy_def Let_def youtube_queries_loop_recs_ok)

lemma recommendations_recs_ok:
  "0 \<le> md \<Longrightarrow>
     recs_ok (unicodedata prov) ms (autoplay_history w) md (fst (get_autoplay_recommendations prov seed ms md w))"
proof -
  assume md: "0 \<le> md"
  have "recs_ok (unicodedata prov) ms (autoplay_history w) md (fst ([], next_id w))"
    by (simp add: recs_ok_def)
  then have "recs_ok (unicodedata prov) ms (autoplay_history w) md
               (fst (spotify_strategy prov seed (autoplay_history w) ms md ([], next_id w)))"
    by (rule spotify_strategy_recs_ok)
  then have "recs_ok (unicodedata prov) ms (autoplay_history w) md
               (fst (youtube_strategy prov seed (autoplay_history w) ms md
                  (spotify_strategy prov seed (autoplay_history w) ms md ([], next_id w))))"
    using md by (rule youtube_strategy_recs_ok)
  then show ?thesis
    by (simp add: get_autoplay_recommendations_def case_prod_beta)
qed

text \<open>
  C5. Whatever the providers return, whatever the seed song and the session are, and whatever
  the character database of the interpreter says beyond ASCII, the list returned by
  \<^verbatim>\<open>get_autoplay_recommendations\<close> has at most \<^verbatim>\<open>max_songs\<close> entries (none for a
  negative \<^verbatim>\<open>max_songs\<close>), so at most 3 in the call the driver makes; no entry has a
  duration above \<^verbatim>\<open>max_duration\<close>, for a cap that is not negative such as 300; and no
  entry has the title and the artist, both compared after \<^verbatim>\<open>lower()\<close>, of a song that was
  in \<^verbatim>\<open>autoplay_history\<close> when the call began.
\<close>

theorem recommendations_filtered:
  assumes "0 \<le> max_duration"
  shows "int (length (fst (get_autoplay_recommendations prov seed max_songs max_duration w))) \<le> max 0 max_songs
       \<and> length (fst (get_autoplay_recommendations prov seed 3 300 w)) \<le> 3
       \<and> (\<forall>r \<in> set (fst (get_autoplay_recommendations prov seed max_songs max_duration w)).
             (\<forall>d. duration r = Some d \<longrightarrow> d \<le> max_duration)
             \<and> (\<forall>h \<in> set (autoplay_history w).
                   \<not> (str_lower (unicodedata prov) (title r) = str_lower (unicodedata prov) (title h)
                      \<and> str_lower (unicodedata prov) (artist r) = str_lower (unicodedata prov) (artist h))))"
proof -
  from recommendations_recs_ok [OF assms, where ms = max_songs and w = w and prov = prov and seed = seed]
  have a: "int (length (fst (get_autoplay_recommendations prov seed max_songs max_duration w))) \<le> max 0 max_songs"
    and b: "\<forall>r \<in> set (fst (get_autoplay_recommendations prov seed max_songs max_duration w)).
             (\<forall>d. duration r = Some d \<longrightarrow> d \<le> max_duration)
             \<and> (\<forall>h \<in> set (autoplay_history w).
                   \<not> (str_lower (unicodedata prov) (title r) = str_lower (unicodedata prov) (title h)
                      \<and> str_lower (unicodedata prov) (artist r) = str_lower (unicodedata prov) (artist h)))"
    by (auto simp: recs_ok_def list_all_iff acceptable_def list_ex_iff same_title_artist_def)
  from recommendations_recs_ok [where md = 300 and ms = 3 and w = w and prov = prov and seed = seed]
  have c: "length (fst (get_autoplay_recommendations prov seed 3 300 w)) \<le> 3"
    by (simp add: recs_ok_def)
  show ?thesis
    using a b c by blast
qed

theorem recommendations_filtered_witness:
  "(0::int) \<le> 300
   \<and> int (length (fst (get_autoplay_recommendations demo_providers demo_seed 3 300 demo_autoplay_world))) \<le> max 0 3
   \<and> map (\<lambda>r. (title r, artist r, duration r))
         (fst (get_autoplay_recommendations demo_providers demo_seed 3 300 demo_autoplay_world))
       = [(py_str ''Heroes'', py_str ''David Bowie'', Some 210),
          (py_str ''Killer Queen'', py_str ''Queen Official'', Some 180),
          (py_str ''Killer Queen'', py_str ''Queen Official'', Some 180)]
   \<and> map title (autoplay_history demo_autoplay_world) = [py_str ''Radio Ga Ga'']
   \<and> map (\<lambda>h. (str_lower demo_ucd (title h), str_lower demo_ucd (artist h))) latin_greek_history
       = [([99, 97, 102, 233], py_str ''x''), ([959, 948, 959, 962], [959, 948, 959, 962])]
   \<and> map (\<lambda>r. (title r, artist r, str_lower demo_ucd (title r), str_lower demo_ucd (artist r)))
         (fst (get_autoplay_recommendations latin_greek_providers demo_seed 3 300 latin_greek_world))
       = [([201, 931], [927, 916, 927, 931, 44, 32, 66], [233, 962], [959, 948, 959, 962, 44, 32, 98])]"
proof -
  have h: "(0::int) \<le> 300" by simp
  have e: "map (\<lambda>r. (title r, artist r, duration r))
         (fst (get_autoplay_recommendations demo_providers demo_seed 3 300 demo_autoplay_world))
       = [(py_str ''Heroes'', py_str ''David Bowie'', Some 210),
          (py_str ''Killer Queen'', py_str ''Queen Official'', Some 180),
          (py_str ''Killer Queen'', py_str ''Queen Official'', Some 180)]"
    by code_simp
  have g: "map title (autoplay_history demo_autoplay_world) = [py_str ''Radio Ga Ga'']"
    by code_simp
  have l: "map (\<lambda>h. (str_lower demo_ucd (title h), str_lower demo_ucd (artist h))) latin_greek_history
       = [([99, 97, 102, 233], py_str ''x''), ([959, 948, 959, 962], [959, 948, 959, 962])]"
    by code_simp
  have r: "map (\<lambda>r. (title r, artist r, str_lower demo_ucd (title r), str_lower demo_ucd (artist r)))
         (fst (get_autoplay_recommendations latin_greek_providers demo_seed 3 300 latin_greek_world))
       = [([201, 931], [927, 916, 927, 931, 44, 32, 66], [233, 962], [959, 948, 959, 962, 44, 32, 98])]"
    by code_simp
  from recommendations_filtered [OF h, of demo_providers demo_seed 3 demo_autoplay_world]
  show ?thesis
    using e g l r by simp
qed

section \<open>When an autoplay attempt is made\<close>

lemma emit_session [simp]:
  "queue (emit es w) = queue w"
  "current (emit es w) = current w"
  "is_playing (emit es w) = is_playing w"
  "last_activity (emit es w) = last_activity w"
  "autoplay_enabled (emit es w) = autoplay_enabled w"
  "last_played_songs (emit es w) = last_played_songs w"
  "autoplay_history (emit es w) = autoplay_history w"
  "autoplay_failures (emit es w) = autoplay_failures w"
  "last_autoplay_attempt (emit es w) = last_autoplay_attempt w"
  "next_id (emit es w) = next_id w"
  by (simp_all add: emit_def)

lemma load_attempt_playback_events:
  "load_attempt ex w cur = (r, w3) \<Longrightarrow> \<exists>tr. events w3 = events w @ tr \<and> list_all playback_event tr"
  using load_attempt_events [of ex w cur r w3] by (auto simp: list_all_iff)

lemma play_next_song_playback_events:
  "\<exists>tr. events (play_next_song ex w) = events w @ tr \<and> list_all playback_event tr"
proof (induction w rule: play_next_song_paths [of _ ex])
  case (idle w)
  then show ?case
    by (simp add: play_next_song_idle)
next
  case (loaded w cur src w3)
  from load_attempt_playback_events [OF loaded(2)] show ?case
    by (auto simp: play_next_song_loaded [OF loaded(1,2)] Let_def split: option.splits)
next
  case (retry w cur e w3)
  from load_attempt_playback_events [OF retry(2)] retry.IH show ?case
    by (auto simp: play_next_song_retry [OF retry(1,2,3)])
next
  case (skip w cur e w3)
  from load_attempt_playback_events [OF skip(2)] skip.IH show ?case
    by (auto simp: play_next_song_skip [OF skip(1,2,3,4)] emit_def)
next
  case (last w cur e w3)
  from load_attempt_playback_events [OF last(2)] show ?case
    by (auto simp: play_next_song_last [OF last(1,2,3,4)] emit_def)
qed

lemma play_next_song_no_recommend:
  "events v = events w \<Longrightarrow> Recommend i \<notin> set (new_events w (play_next_song ex v))"
proof -
  assume e: "events v = events w"
  from play_next_song_playback_events [of ex v] obtain tr where
    "events (play_next_song ex v) = events v @ tr" "list_all playback_event tr" by blast
  then show ?thesis
    using e by (auto simp: new_events_def list_all_iff)
qed

lemma recommendations_session [simp]:
  "events (snd (get_autoplay_recommendations prov s m d w)) = events w"
  "queue (snd (get_autoplay_recommendations prov s m d w)) = queue w"
  "autoplay_failures (snd (get_autoplay_recommendations prov s m d w)) = autoplay_failures w"
  by (simp_all add: get_autoplay_recommendations_def case_prod_beta)

lemma add_songs_session [simp]:
  "events (add_songs ss clock k w) = events w"
  "queue (add_songs ss clock k w) = queue w @ ss"
  "autoplay_failures (add_songs ss clock k w) = autoplay_failures w"
  by (induction ss arbitrary: k w) (simp_all add: add_song_def)

lemma queue_drained_failures [simp]:
  "autoplay_failures (queue_drained w) = autoplay_failures w"
  by (simp add: queue_drained_def Let_def)

lemma queue_drained_events:
  "\<exists>tr. events (queue_drained w) = events w @ tr \<and> list_all playback_event tr"
  by (auto simp: queue_drained_def Let_def)

lemma play_next_song_failures [simp]:
  "autoplay_failures (play_next_song ex w) = autoplay_failures w"
  using play_next_song_frame [of ex w] by (simp add: session_frame_def)

text \<open>The autoplay attempt, written out.\<close>

lemma autoplay_attempt_unfold:
  assumes "queue w = []"
  shows "autoplay_attempt ex prov clock (w\<lparr>current := None\<rparr>) =
     (let recs = fst (get_autoplay_recommendations prov (last (last_played_songs w)) 3 300 (attempt_state clock w));
          w3 = snd (get_autoplay_recommendations prov (last (last_played_songs w)) 3 300 (attempt_state clock w))
      in if recs = []
         then queue_drained (w3\<lparr>autoplay_failures := autoplay_failures w + 1\<rparr>)
         else play_next_song ex
                ((emit [AutoplayNotice (length recs)] (add_songs recs clock 2 (w3\<lparr>autoplay_failures := 0\<rparr>)))
                   \<lparr>queue := tl recs, current := Some (hd recs)\<rparr>))"
proof -
  let ?g = "get_autoplay_recommendations prov (last (last_played_songs w)) 3 300 (attempt_state clock w)"
  have nx: "get_next_song v = (Some (hd (queue v)), v\<lparr>queue := tl (queue v)\<rparr>)"
    if "queue v \<noteq> []" for v :: world
    using that by (cases "queue v") (simp_all add: get_next_song_def)
  show ?thesis
  proof (cases "fst ?g = []")
    case True
    then show ?thesis
      by (simp add: autoplay_attempt_def Let_def case_prod_beta attempt_state_def)
  next
    case False
    then show ?thesis
      using assms
      by (simp add: autoplay_attempt_def Let_def case_prod_beta attempt_state_def nx emit_def)
  qed
qed

lemma play_next_in_queue_empty:
  "queue w = [] \<Longrightarrow>
     play_next_in_queue ex prov clock w =
       (if autoplay_due (clock 0) w then autoplay_attempt ex prov clock (w\<lparr>current := None\<rparr>)
        else queue_drained (w\<lparr>current := None\<rparr>))"
  by (simp add: play_next_in_queue_def get_next_song_def Let_def autoplay_due_def)

lemma play_next_in_queue_nonempty:
  "queue w = s # rest \<Longrightarrow>
     play_next_in_queue ex prov clock w = play_next_song ex (w\<lparr>queue := rest, current := Some s\<rparr>)"
  by (simp add: play_next_in_queue_def get_next_song_def Let_def)

lemma attempt_events:
  assumes "queue w = []"
  shows "\<exists>tr. events (autoplay_attempt ex prov clock (w\<lparr>current := None\<rparr>))
            = events w @ Recommend (song_id (last (last_played_songs w))) # tr"
proof -
  let ?g = "get_autoplay_recommendations prov (last (last_played_songs w)) 3 300 (attempt_state clock w)"
  have e3: "events (snd ?g) = events w @ [Recommend (song_id (last (last_played_songs w)))]"
    by (simp add: attempt_state_def)
  show ?thesis
  proof (cases "fst ?g = []")
    case True
    from queue_drained_events [of "(snd ?g)\<lparr>autoplay_failures := autoplay_failures w + 1\<rparr>"]
    show ?thesis
      using True e3 by (auto simp: autoplay_attempt_unfold [OF assms] Let_def)
  next
    case False
    let ?v = "(emit [AutoplayNotice (length (fst ?g))]
                 (add_songs (fst ?g) clock 2 ((snd ?g)\<lparr>autoplay_failures := 0\<rparr>)))
                \<lparr>queue := tl (fst ?g), current := Some (hd (fst ?g))\<rparr>"
    from play_next_song_playback_events [of ex ?v] obtain tr where
      "events (play_next_song ex ?v) = events ?v @ tr" by blast
    then show ?thesis
      using False e3 by (simp add: autoplay_attempt_unfold [OF assms] Let_def)
  qed
qed

text \<open>
  C4. \<^verbatim>\<open>play_next_in_queue\<close> asks the recommender exactly when the queue is empty,
  autoplay is enabled, \<^verbatim>\<open>last_played_songs\<close> is not empty, \<^verbatim>\<open>autoplay_failures\<close> is
  below 3 and more than 30 seconds have passed since \<^verbatim>\<open>last_autoplay_attempt\<close>; in
  particular it never does unless all of these hold.
\<close>

theorem autoplay_guard:
  "(\<exists>i. Recommend i \<in> set (new_events w (play_next_in_queue ex prov clock w)))
     = (queue w = [] \<and> autoplay_enabled w \<and> last_played_songs w \<noteq> []
        \<and> autoplay_failures w < 3 \<and> clock 0 - last_autoplay_attempt w > 30)"
proof (cases "queue w")
  case (Cons s rest)
  have "Recommend i \<notin> set (new_events w (play_next_song ex (w\<lparr>queue := rest, current := Some s\<rparr>)))" for i
    by (rule play_next_song_no_recommend) simp
  then show ?thesis
    using Cons by (simp add: play_next_in_queue_nonempty)
next
  case Nil
  show ?thesis
  proof (cases "autoplay_due (clock 0) w")
    case True
    from attempt_events [OF Nil, of ex prov clock] obtain tr where
      "events (autoplay_attempt ex prov clock (w\<lparr>current := None\<rparr>))
            = events w @ Recommend (song_id (last (last_played_songs w))) # tr" by blast
    then have "Recommend (song_id (last (last_played_songs w)))
                 \<in> set (new_events w (play_next_in_queue ex prov clock w))"
      using True Nil by (simp add: play_next_in_queue_empty new_events_def)
    then show ?thesis
      using True Nil by (auto simp: autoplay_due_def)
  next
    case False
    from queue_drained_events [of "w\<lparr>current := None\<rparr>"] obtain tr where
      "events (queue_drained (w\<lparr>current := None\<rparr>)) = events w @ tr" "list_all playback_event tr"
      by auto
    then have "Recommend i \<notin> set (new_events w (play_next_in_queue ex prov clock w))" for i
      using False Nil by (auto simp: play_next_in_queue_empty new_events_def list_all_iff)
    then show ?thesis
      using False Nil by (auto simp: autoplay_due_def)
  qed
qed

theorem autoplay_guard_witness:
  "(\<exists>i. Recommend i \<in> set (new_events demo_autoplay_world
            (play_next_in_queue always_loading demo_providers (\<lambda>k. 100) demo_autoplay_world)))
   \<and> \<not> (\<exists>i. Recommend i \<in> set (new_events demo_autoplay_world
            (play_next_in_queue always_loading demo_providers (\<lambda>k. 30) demo_autoplay_world)))
   \<and> \<not> (\<exists>i. Recommend i \<in> set (new_events (demo_autoplay_world\<lparr>autoplay_failures := 3\<rparr>)
            (play_next_in_queue always_loading demo_providers (\<lambda>k. 100)
               (demo_autoplay_world\<lparr>autoplay_failures := 3\<rparr>))))"
proof -
  have a: "queue demo_autoplay_world = []" "autoplay_enabled demo_autoplay_world"
    "last_played_songs demo_autoplay_world \<noteq> []" "autoplay_failures demo_autoplay_world = 0"
    "last_autoplay_attempt demo_autoplay_world = 0"
    by (simp_all add: demo_autoplay_world_def fresh_world_def)
  show ?thesis
    using a
    by (simp add: autoplay_guard [of demo_autoplay_world always_loading demo_providers "\<lambda>k. 100"]
          autoplay_guard [of demo_autoplay_world always_loading demo_providers "\<lambda>k. 30"]
          autoplay_guard [of "demo_autoplay_world\<lparr>autoplay_failures := 3\<rparr>" always_loading demo_providers "\<lambda>k. 100"])
qed

section \<open>Provider errors and the autoplay failure counter\<close>




end
